theory Spec2Isabelle
  imports Main "HOL-Library.Sublist"
begin

section \<open>Python values and exceptions used by the adapter\<close>

text \<open>
  The exceptions that the modelled code can raise. \<open>Skipped\<close> is the exception raised by
  \<^verbatim>\<open>pytest.skip()\<close>; \<open>ParseError\<close> is \<^verbatim>\<open>xml.etree.ElementTree.ParseError\<close>.
  \<open>NotModelled\<close> is not a Python exception: the reference XML reader below answers with it
  on documents that use markup outside the fragment of XML it covers. \<open>OSError\<close> stands
  for \<^verbatim>\<open>IOError\<close> as well, which is the same class. \<open>UnicodeDecodeError\<close> is a subclass
  of \<^verbatim>\<open>ValueError\<close>; it is kept apart because no handler in the adapter catches either.
\<close>

datatype exn =
    AttributeError
  | KeyError
  | ValueError
  | UnicodeDecodeError
  | TypeError
  | ParseError
  | OSError
  | CalledProcessError
  | Skipped
  | NotModelled

definition newline :: char where
  "newline = CHR 0x0A"

subsection \<open>\<^verbatim>\<open>str(int)\<close>\<close>

fun str_nat :: "nat \<Rightarrow> string" where
  "str_nat n = (if n < 10 then [''0123456789'' ! n]
                else str_nat (n div 10) @ [''0123456789'' ! (n mod 10)])"

declare str_nat.simps [simp del]

definition str_int :: "int \<Rightarrow> string" where
  "str_int i = (if i < 0 then CHR ''-'' # str_nat (nat (- i)) else str_nat (nat i))"

text \<open>\<^verbatim>\<open>str.format\<close> of a value that is either \<^verbatim>\<open>None\<close> or a string.\<close>

definition format_opt :: "string option \<Rightarrow> string" where
  "format_opt v = (case v of None \<Rightarrow> ''None'' | Some s \<Rightarrow> s)"

section \<open>\<^verbatim>\<open>os.path\<close> (POSIX flavour)\<close>

text \<open>
  \<^verbatim>\<open>str.rfind\<close> for a one-character needle: the highest index holding the character,
  or \<open>-1\<close> when the character does not occur.
\<close>

fun rfind_from :: "string \<Rightarrow> char \<Rightarrow> nat \<Rightarrow> int" where
  "rfind_from p c 0 = - 1"
| "rfind_from p c (Suc i) = (if p ! i = c then int i else rfind_from p c i)"

definition rfind :: "string \<Rightarrow> char \<Rightarrow> int" where
  "rfind p c = rfind_from p c (length p)"

text \<open>
  \<^verbatim>\<open>posixpath.basename\<close>:
  \<^verbatim>\<open>i = p.rfind('/') + 1; return p[i:]\<close>
\<close>

definition basename :: "string \<Rightarrow> string" where
  "basename p = (let i = rfind p CHR ''/'' + 1 in drop (nat i) p)"

text \<open>
  The loop of \<^verbatim>\<open>genericpath._splitext\<close> that skips the leading dots of the last path
  component: it answers whether some character in \<open>[filenameIndex, dotIndex)\<close> is not a dot.
\<close>

function skip_leading_dots :: "string \<Rightarrow> nat \<Rightarrow> nat \<Rightarrow> bool" where
  "skip_leading_dots p filenameIndex dotIndex =
     (if filenameIndex < dotIndex
      then (if p ! filenameIndex \<noteq> CHR ''.'' then True
            else skip_leading_dots p (Suc filenameIndex) dotIndex)
      else False)"
  by pat_completeness auto
termination
  by (relation "measure (\<lambda>(p, i, d). d - i)") auto

declare skip_leading_dots.simps [simp del]

text \<open>
  \<^verbatim>\<open>posixpath.splitext\<close>, that is \<^verbatim>\<open>genericpath._splitext(p, '/', None, '.')\<close>.
\<close>

definition splitext :: "string \<Rightarrow> string \<times> string" where
  "splitext p =
     (let sepIndex = rfind p CHR ''/'';
          dotIndex = rfind p CHR ''.''
      in if dotIndex > sepIndex \<and> skip_leading_dots p (nat (sepIndex + 1)) (nat dotIndex)
         then (take (nat dotIndex) p, drop (nat dotIndex) p)
         else (p, []))"

section \<open>Listing tests\<close>

text \<open>
  \<^verbatim>\<open>BoostTestFacade._list_tests_fallback\<close>:
  \<^verbatim>\<open>return [os.path.basename(os.path.splitext(executable)[0])]\<close>
\<close>

definition list_tests_fallback :: "string \<Rightarrow> string list" where
  "list_tests_fallback executable = [basename (fst (splitext executable))]"

text \<open>\<^verbatim>\<open>BoostTestFacade.list_tests\<close> always delegates to the fallback.\<close>

definition list_tests :: "string \<Rightarrow> string list" where
  "list_tests executable = list_tests_fallback executable"

subsection \<open>Hierarchical listing\<close>

text \<open>
  The character class \<^verbatim>\<open>\s\<close> of a Python 3 \<^verbatim>\<open>str\<close> pattern, for code points below 256.
\<close>

definition isspace :: "char \<Rightarrow> bool" where
  "isspace c = (let n = (of_char c :: nat) in
     (9 \<le> n \<and> n \<le> 13) \<or> (28 \<le> n \<and> n \<le> 32) \<or> n = 133 \<or> n = 160)"

text \<open>
  \<^verbatim>\<open>get_lines_iter\<close>: the matches of \<^verbatim>\<open>re.compile('^.*$', re.MULTILINE)\<close>. The dot does
  not match a newline, so the matches are the maximal newline-free stretches of the text, one
  per line, including the empty one after a final newline.
\<close>

fun get_lines_iter :: "string \<Rightarrow> string list" where
  "get_lines_iter [] = [[]]"
| "get_lines_iter (c # cs) =
     (if c = newline then [] # get_lines_iter cs
      else (case get_lines_iter cs of [] \<Rightarrow> [[c]] | l # ls \<Rightarrow> (c # l) # ls))"

text \<open>
  \<^verbatim>\<open>_TEST_CASE_PATTERN.match(line)\<close> for the pattern
  \<^verbatim>\<open>(?P<indent>\s*)(?P<name>[^*\s]+)\*\<close>. The name cannot start with white space, so the
  indent group takes the whole leading white space; the name group takes the longest stretch
  free of \<open>*\<close> and white space, and no shorter choice can be followed by \<open>*\<close>. The result is
  the pair of the groups \<open>indent\<close> and \<open>name\<close>.
\<close>

definition test_case_match :: "string \<Rightarrow> (string \<times> string) option" where
  "test_case_match line =
     (let indent_group = takeWhile isspace line;
          rest = dropWhile isspace line;
          name_group = takeWhile (\<lambda>c. c \<noteq> CHR ''*'' \<and> \<not> isspace c) rest;
          after = dropWhile (\<lambda>c. c \<noteq> CHR ''*'' \<and> \<not> isspace c) rest
      in if name_group \<noteq> [] \<and> (case after of [] \<Rightarrow> False | c # _ \<Rightarrow> c = CHR ''*'')
         then Some (indent_group, name_group) else None)"

record TestNode =
  name :: string
  indent :: nat

text \<open>\<^verbatim>\<open>sep.join(parts)\<close>\<close>

fun join :: "string \<Rightarrow> string list \<Rightarrow> string" where
  "join sep [] = []"
| "join sep [x] = x"
| "join sep (x # y # ys) = x @ sep @ join sep (y # ys)"

definition get_test_name :: "TestNode list \<Rightarrow> string" where
  "get_test_name test_names_branch = join ''/'' (map name test_names_branch)"

text \<open>
  \<^verbatim>\<open>while test_names_branch and test_names_branch[-1].indent >= indent:
      test_names_branch.pop()\<close>
\<close>

function pop_branch :: "nat \<Rightarrow> TestNode list \<Rightarrow> TestNode list" where
  "pop_branch ind test_names_branch =
     (if test_names_branch \<noteq> [] \<and> indent (last test_names_branch) \<ge> ind
      then pop_branch ind (butlast test_names_branch)
      else test_names_branch)"
  by pat_completeness auto
termination
  by (relation "measure (\<lambda>(i, b). length b)") auto

declare pop_branch.simps [simp del]

record list_state =
  prev_indent :: nat
  tests :: "string list"
  test_names_branch :: "TestNode list"

text \<open>One iteration of the loop over the lines of the listing.\<close>

definition list_step :: "list_state \<Rightarrow> string \<Rightarrow> list_state" where
  "list_step st line =
     (case test_case_match line of
        None \<Rightarrow> st
      | Some (indent_group, test_name) \<Rightarrow>
          (let ind = length indent_group;
               test_node = \<lparr>name = test_name, indent = ind\<rparr>;
               st1 = (if ind \<le> prev_indent st
                      then (let full_test = get_test_name (test_names_branch st)
                            in st\<lparr>tests := (if full_test \<noteq> [] then tests st @ [full_test]
                                            else tests st),
                                  test_names_branch := pop_branch ind (test_names_branch st)\<rparr>)
                      else st)
           in st1\<lparr>test_names_branch := test_names_branch st1 @ [test_node],
                  prev_indent := ind\<rparr>))"

text \<open>
  The part of \<^verbatim>\<open>BoostTestFacade._list_tests\<close> that follows the call of the executable:
  the loop over the lines of its output and the final flush of the open branch.
\<close>

definition list_content :: "string \<Rightarrow> string list" where
  "list_content output =
     (let st = foldl list_step \<lparr>prev_indent = 0, tests = [], test_names_branch = []\<rparr>
                 (get_lines_iter output)
      in if test_names_branch st \<noteq> [] then tests st @ [get_test_name (test_names_branch st)]
         else tests st)"

section \<open>XML elements\<close>

text \<open>
  An \<^verbatim>\<open>xml.etree.ElementTree.Element\<close>, with the parts the adapter reads: the tag, the
  attribute dictionary, the text before the first child (\<^verbatim>\<open>None\<close> when there is none) and
  the children in document order.
\<close>

datatype element =
  Element (tag: string) (attrib: "(string \<times> string) list") (elem_text: "string option")
          (children: "element list")

text \<open>\<^verbatim>\<open>elem.findall(name)\<close> for a plain tag name: the direct children with that tag.\<close>

definition findall :: "element \<Rightarrow> string \<Rightarrow> element list" where
  "findall elem nm = filter (\<lambda>e. tag e = nm) (children elem)"

text \<open>\<^verbatim>\<open>elem.attrib[key]\<close>\<close>

definition attrib_get :: "element \<Rightarrow> string \<Rightarrow> exn + string" where
  "attrib_get elem key = (case map_of (attrib elem) key of None \<Rightarrow> Inl KeyError | Some v \<Rightarrow> Inr v)"

text \<open>
  The XML reader (\<^verbatim>\<open>ElementTree.fromstring\<close>) is a library outside the adapter. The
  adapter's functions take it as the parameter \<open>et\<close>, so that what is proved for every \<open>et\<close>
  holds whatever the library does.
\<close>

type_synonym xml_reader = "string \<Rightarrow> exn + element"

subsection \<open>A reference XML reader for plain documents\<close>

text \<open>
  For concrete documents a reader is needed that computes. \<open>fromstring\<close> below covers
  documents made of elements, attributes and character data over printable ASCII, tab and
  newline, without namespaces. On references (\<open>&\<close>), comments, CDATA sections, processing
  instructions, declarations, colons in names, \<open>xmlns\<close> attributes, a \<open>>\<close> in character
  data and any other character it answers \<open>NotModelled\<close>. Inside the fragment it answers
  as the library does: the element tree, or \<open>ParseError\<close> for a document that is not
  well-formed.
\<close>

definition modelled_char :: "char \<Rightarrow> bool" where
  "modelled_char c = (let n = (of_char c :: nat) in (32 \<le> n \<and> n \<le> 126) \<or> n = 9 \<or> n = 10)"

definition xml_space :: "char \<Rightarrow> bool" where
  "xml_space c = (c = CHR '' '' \<or> c = CHR 0x09 \<or> c = CHR 0x0A)"

definition name_start :: "char \<Rightarrow> bool" where
  "name_start c = (let n = (of_char c :: nat) in
     (65 \<le> n \<and> n \<le> 90) \<or> (97 \<le> n \<and> n \<le> 122) \<or> c = CHR ''_'')"

definition name_char :: "char \<Rightarrow> bool" where
  "name_char c = (let n = (of_char c :: nat) in
     name_start c \<or> (48 \<le> n \<and> n \<le> 57) \<or> c = CHR ''-'' \<or> c = CHR ''.'')"

datatype token =
    StartTag string "(string \<times> string) list"
  | EndTag string
  | EmptyTag string "(string \<times> string) list"
  | CharData string

text \<open>
  The positions of the scanner inside a document. Names and values that are still being
  read are kept reversed.
\<close>

datatype lex_mode =
    InText string
  | TagOpen
  | TagName string
  | Attrs string "(string \<times> string) list"
  | AttrName string "(string \<times> string) list" string
  | AttrEq string "(string \<times> string) list" string
  | AttrQuote string "(string \<times> string) list" string
  | AttrValue string "(string \<times> string) list" string char string
  | AttrEnd string "(string \<times> string) list"
  | Slash string "(string \<times> string) list"
  | EndName string
  | EndSpace string

definition emit :: "token \<Rightarrow> exn + token list \<Rightarrow> exn + token list" where
  "emit t r = (case r of Inl e \<Rightarrow> Inl e | Inr ts \<Rightarrow> Inr (t # ts))"

definition emit_text :: "string \<Rightarrow> exn + token list \<Rightarrow> exn + token list" where
  "emit_text t r = (if t = [] then r else emit (CharData (rev t)) r)"

fun lex :: "lex_mode \<Rightarrow> string \<Rightarrow> exn + token list" where
  "lex m [] = (case m of InText t \<Rightarrow> emit_text t (Inr []) | _ \<Rightarrow> Inl ParseError)"
| "lex (InText t) (c # cs) =
     (if \<not> modelled_char c \<or> c = CHR ''&'' \<or> c = CHR ''>'' then Inl NotModelled
      else if c = CHR ''<'' then emit_text t (lex TagOpen cs)
      else lex (InText (c # t)) cs)"
| "lex TagOpen (c # cs) =
     (if \<not> modelled_char c \<or> c = CHR ''!'' \<or> c = CHR ''?'' \<or> c = CHR '':'' then Inl NotModelled
      else if c = CHR ''/'' then lex (EndName []) cs
      else if name_start c then lex (TagName [c]) cs
      else Inl ParseError)"
| "lex (TagName n) (c # cs) =
     (if \<not> modelled_char c \<or> c = CHR '':'' then Inl NotModelled
      else if name_char c then lex (TagName (c # n)) cs
      else if xml_space c then lex (Attrs (rev n) []) cs
      else if c = CHR ''>'' then emit (StartTag (rev n) []) (lex (InText []) cs)
      else if c = CHR ''/'' then lex (Slash (rev n) []) cs
      else Inl ParseError)"
| "lex (Attrs n as) (c # cs) =
     (if \<not> modelled_char c \<or> c = CHR '':'' then Inl NotModelled
      else if xml_space c then lex (Attrs n as) cs
      else if c = CHR ''>'' then emit (StartTag n as) (lex (InText []) cs)
      else if c = CHR ''/'' then lex (Slash n as) cs
      else if name_start c then lex (AttrName n as [c]) cs
      else Inl ParseError)"
| "lex (AttrName n as a) (c # cs) =
     (if \<not> modelled_char c \<or> c = CHR '':'' then Inl NotModelled
      else if name_char c then lex (AttrName n as (c # a)) cs
      else if xml_space c then lex (AttrEq n as (rev a)) cs
      else if c = CHR ''='' then lex (AttrQuote n as (rev a)) cs
      else Inl ParseError)"
| "lex (AttrEq n as a) (c # cs) =
     (if \<not> modelled_char c then Inl NotModelled
      else if xml_space c then lex (AttrEq n as a) cs
      else if c = CHR ''='' then lex (AttrQuote n as a) cs
      else Inl ParseError)"
| "lex (AttrQuote n as a) (c # cs) =
     (if \<not> modelled_char c then Inl NotModelled
      else if xml_space c then lex (AttrQuote n as a) cs
      else if c = CHR 0x22 \<or> c = CHR 0x27 then lex (AttrValue n as a c []) cs
      else Inl ParseError)"
| "lex (AttrValue n as a q v) (c # cs) =
     (if \<not> modelled_char c \<or> c = CHR ''&'' then Inl NotModelled
      else if c = q then
        (if a = ''xmlns'' then Inl NotModelled
         else if map_of as a \<noteq> None then Inl ParseError
         else lex (AttrEnd n (as @ [(a, rev v)])) cs)
      else if c = CHR ''<'' then Inl ParseError
      else if xml_space c then lex (AttrValue n as a q (CHR '' '' # v)) cs
      else lex (AttrValue n as a q (c # v)) cs)"
| "lex (AttrEnd n as) (c # cs) =
     (if \<not> modelled_char c then Inl NotModelled
      else if xml_space c then lex (Attrs n as) cs
      else if c = CHR ''>'' then emit (StartTag n as) (lex (InText []) cs)
      else if c = CHR ''/'' then lex (Slash n as) cs
      else Inl ParseError)"
| "lex (Slash n as) (c # cs) =
     (if \<not> modelled_char c then Inl NotModelled
      else if c = CHR ''>'' then emit (EmptyTag n as) (lex (InText []) cs)
      else Inl ParseError)"
| "lex (EndName n) (c # cs) =
     (if \<not> modelled_char c \<or> c = CHR '':'' then Inl NotModelled
      else if n = [] then (if name_start c then lex (EndName [c]) cs else Inl ParseError)
      else if name_char c then lex (EndName (c # n)) cs
      else if xml_space c then lex (EndSpace (rev n)) cs
      else if c = CHR ''>'' then emit (EndTag (rev n)) (lex (InText []) cs)
      else Inl ParseError)"
| "lex (EndSpace n) (c # cs) =
     (if \<not> modelled_char c then Inl NotModelled
      else if xml_space c then lex (EndSpace n) cs
      else if c = CHR ''>'' then emit (EndTag n) (lex (InText []) cs)
      else Inl ParseError)"

text \<open>
  The tree builder keeps the stack of open elements, innermost first. Character data goes to
  the text of the innermost open element as long as that element has no child yet; after a
  child it is the child's tail, which the adapter never reads.
\<close>

definition add_text :: "string \<Rightarrow> element \<Rightarrow> element" where
  "add_text t e =
     (if children e = []
      then Element (tag e) (attrib e) (Some (case elem_text e of None \<Rightarrow> t | Some u \<Rightarrow> u @ t)) []
      else e)"

definition add_child :: "element \<Rightarrow> element \<Rightarrow> element" where
  "add_child k e = Element (tag e) (attrib e) (elem_text e) (children e @ [k])"

fun build :: "element list \<Rightarrow> element option \<Rightarrow> token list \<Rightarrow> exn + element" where
  "build [] None [] = Inl ParseError"
| "build [] (Some root) [] = Inr root"
| "build (e # es) root [] = Inl ParseError"
| "build [] root (CharData t # ts) =
     (if list_all xml_space t then build [] root ts else Inl ParseError)"
| "build (e # es) root (CharData t # ts) = build (add_text t e # es) root ts"
| "build [] (Some root) (StartTag n as # ts) = Inl ParseError"
| "build st root (StartTag n as # ts) = build (Element n as None [] # st) root ts"
| "build [] (Some root) (EmptyTag n as # ts) = Inl ParseError"
| "build [] None (EmptyTag n as # ts) = build [] (Some (Element n as None [])) ts"
| "build (e # es) root (EmptyTag n as # ts) = build (add_child (Element n as None []) e # es) root ts"
| "build [] root (EndTag n # ts) = Inl ParseError"
| "build [e] root (EndTag n # ts) =
     (if tag e = n then build [] (Some e) ts else Inl ParseError)"
| "build (e # f # es) root (EndTag n # ts) =
     (if tag e = n then build (add_child e f # es) root ts else Inl ParseError)"

definition fromstring :: xml_reader where
  "fromstring s = (case lex (InText []) s of Inl e \<Rightarrow> Inl e | Inr ts \<Rightarrow> build [] None ts)"

section \<open>String operations of Python\<close>

text \<open>
  \<^verbatim>\<open>s.split(sep)\<close> for a non-empty separator: the text is scanned from the left and cut at
  every occurrence of the separator that does not overlap the one before. The second
  argument is the current piece, reversed.
\<close>

function split_from :: "string \<Rightarrow> string \<Rightarrow> string \<Rightarrow> string list" where
  "split_from sep cur [] = [rev cur]"
| "split_from sep cur (c # cs) =
     (if sep \<noteq> [] \<and> prefix sep (c # cs)
      then rev cur # split_from sep [] (drop (length sep) (c # cs))
      else split_from sep (c # cur) cs)"
  by pat_completeness auto
termination
  by (relation "measure (\<lambda>(sep, cur, s). length s)") auto

definition split :: "string \<Rightarrow> string \<Rightarrow> exn + string list" where
  "split s sep = (if sep = [] then Inl ValueError else Inr (split_from sep [] s))"

text \<open>The number of pieces that \<^verbatim>\<open>s.split(sep)\<close> yields.\<close>

definition nparts :: "string \<Rightarrow> string \<Rightarrow> nat" where
  "nparts sep s = length (split_from sep [] s)"

text \<open>
  \<^verbatim>\<open>s.splitlines()\<close>: the line boundaries of a \<^verbatim>\<open>str\<close> below code point 256; a carriage
  return followed by a line feed is one boundary, and a final boundary opens no empty line.
\<close>

definition line_boundary :: "char \<Rightarrow> bool" where
  "line_boundary c = (let n = (of_char c :: nat) in
     (10 \<le> n \<and> n \<le> 13) \<or> (28 \<le> n \<and> n \<le> 30) \<or> n = 133)"

fun splitlines_from :: "string \<Rightarrow> string \<Rightarrow> string list" where
  "splitlines_from cur [] = (if cur = [] then [] else [rev cur])"
| "splitlines_from cur [c] = (if line_boundary c then [rev cur] else [rev (c # cur)])"
| "splitlines_from cur (c # d # cs) =
     (if c = CHR 0x0D \<and> d = CHR 0x0A then rev cur # splitlines_from [] cs
      else if line_boundary c then rev cur # splitlines_from [] (d # cs)
      else splitlines_from (c # cur) (d # cs))"

definition splitlines :: "string \<Rightarrow> string list" where
  "splitlines s = splitlines_from [] s"

text \<open>
  \<^verbatim>\<open>int(s)\<close> for a string: surrounding white space is dropped, one sign is allowed, and the
  digits may be separated by single underscores. The white space of \<^verbatim>\<open>int\<close> is narrower than
  that of the regular expressions: below code point 127 only tab, line feed, vertical tab,
  form feed, carriage return and space count, above it the Unicode spaces (133 and 160 below
  256). A number of more than 4300 digits is refused (the default of
  \<^verbatim>\<open>sys.int_max_str_digits\<close>).
\<close>

definition int_space :: "char \<Rightarrow> bool" where
  "int_space c = (let n = (of_char c :: nat) in
     (9 \<le> n \<and> n \<le> 13) \<or> n = 32 \<or> n = 133 \<or> n = 160)"

definition isdigit :: "char \<Rightarrow> bool" where
  "isdigit c = (let n = (of_char c :: nat) in 48 \<le> n \<and> n \<le> 57)"

definition digit_value :: "char \<Rightarrow> nat" where
  "digit_value c = of_char c - 48"

fun decimal_from :: "nat \<Rightarrow> string \<Rightarrow> nat option" where
  "decimal_from acc [] = Some acc"
| "decimal_from acc [c] = (if isdigit c then Some (10 * acc + digit_value c) else None)"
| "decimal_from acc (c # d # cs) =
     (if isdigit c then decimal_from (10 * acc + digit_value c) (d # cs)
      else if c = CHR ''_'' \<and> isdigit d then decimal_from acc (d # cs)
      else None)"

definition decimal :: "string \<Rightarrow> nat option" where
  "decimal s = (case s of [] \<Rightarrow> None
                | c # cs \<Rightarrow> if isdigit c then decimal_from (digit_value c) cs else None)"

definition strip :: "string \<Rightarrow> string" where
  "strip s = rev (dropWhile int_space (rev (dropWhile int_space s)))"

definition py_int :: "string \<Rightarrow> exn + int" where
  "py_int s =
     (let t = strip s;
          negative = (case t of [] \<Rightarrow> False | c # _ \<Rightarrow> c = CHR ''-'');
          body = (case t of [] \<Rightarrow> [] | c # cs \<Rightarrow> if c = CHR ''-'' \<or> c = CHR ''+'' then cs else t)
      in case decimal body of
           None \<Rightarrow> Inl ValueError
         | Some n \<Rightarrow>
             if 4300 < length (filter isdigit body) then Inl ValueError
             else Inr (if negative then - int n else int n))"

section \<open>Failure records\<close>

text \<open>
  \<^verbatim>\<open>class BoostTestFailure\<close>: the constructor stores the file name, the line number and
  \<^verbatim>\<open>contents.splitlines()\<close>. The contents can be \<^verbatim>\<open>None\<close> (the text of an element without
  character data), and then \<^verbatim>\<open>splitlines\<close> is an attribute error.
\<close>

record BoostTestFailure =
  filename :: string
  linenum :: int
  lines :: "string list"

definition new_BoostTestFailure :: "string \<Rightarrow> int \<Rightarrow> string option \<Rightarrow> exn + BoostTestFailure" where
  "new_BoostTestFailure fname lnum contents =
     (case contents of
        None \<Rightarrow> Inl AttributeError
      | Some c \<Rightarrow> Inr \<lparr>filename = fname, linenum = lnum, lines = splitlines c\<rparr>)"

definition get_file_reference :: "BoostTestFailure \<Rightarrow> string \<times> int" where
  "get_file_reference f = (filename f, linenum f)"

section \<open>The native log\<close>

text \<open>
  The loop at the end of \<^verbatim>\<open>_parse_log\<close>: one failure per element; the first exception
  ends the loop.
\<close>

fun failures_of :: "element list \<Rightarrow> exn + BoostTestFailure list" where
  "failures_of [] = Inr []"
| "failures_of (elem # elems) =
     (case attrib_get elem ''file'' of
        Inl e \<Rightarrow> Inl e
      | Inr fname \<Rightarrow>
          (case attrib_get elem ''line'' of
             Inl e \<Rightarrow> Inl e
           | Inr l \<Rightarrow>
               (case py_int l of
                  Inl e \<Rightarrow> Inl e
                | Inr lnum \<Rightarrow>
                    (case new_BoostTestFailure fname lnum (elem_text elem) of
                       Inl e \<Rightarrow> Inl e
                     | Inr failure \<Rightarrow>
                         (case failures_of elems of
                            Inl e \<Rightarrow> Inl e
                          | Inr result \<Rightarrow> Inr (failure # result))))))"

text \<open>
  The first half of \<^verbatim>\<open>_parse_log\<close>: when the log starts with \<^verbatim>\<open><FatalError\<close>, it is split at
  \<^verbatim>\<open></FatalError>\<close> and the two pieces are unpacked (\<^verbatim>\<open>fatal, log = log.split(...)\<close>), which
  is a \<^verbatim>\<open>ValueError\<close> unless there are exactly two pieces. The result is the list of elements
  parsed so far and the remaining log.
\<close>

definition split_fatal :: "xml_reader \<Rightarrow> string \<Rightarrow> exn + element list \<times> string" where
  "split_fatal et log =
     (if prefix ''<FatalError'' log then
        (case split_from ''</FatalError>'' [] log of
           [fatal, log'] \<Rightarrow>
             (case et (fatal @ ''</FatalError>'') of
                Inl e \<Rightarrow> Inl e
              | Inr fatal_root \<Rightarrow>
                  Inr ([Element (tag fatal_root) (attrib fatal_root)
                          (Some (''Fatal Error: '' @ format_opt (elem_text fatal_root)))
                          (children fatal_root)], log'))
         | _ \<Rightarrow> Inl ValueError)
      else Inr ([], log))"

text \<open>
  \<^verbatim>\<open>BoostTestFacade._parse_log\<close>. The argument is \<^verbatim>\<open>None\<close> when the log file could not be
  read; \<^verbatim>\<open>None.startswith\<close> is an attribute error.
\<close>

definition parse_log :: "xml_reader \<Rightarrow> string option \<Rightarrow> exn + BoostTestFailure list" where
  "parse_log et log =
     (case log of
        None \<Rightarrow> Inl AttributeError
      | Some text \<Rightarrow>
          (case split_fatal et text of
             Inl e \<Rightarrow> Inl e
           | Inr (parsed_elements, rest) \<Rightarrow>
               (case et rest of
                  Inl e \<Rightarrow> Inl e
                | Inr log_root \<Rightarrow>
                    failures_of (parsed_elements @ findall log_root ''Exception''
                                   @ findall log_root ''Error''
                                   @ findall log_root ''FatalError''))))"

section \<open>Child processes and files\<close>

text \<open>
  What a file gives when it is opened and read as text: its text, or a failure of the
  decoder. A path without a file (or with one that cannot be opened) has no entry.
\<close>

datatype file_content = Text string | Undecodable

text \<open>
  What the adapter sees of a child process that has run to its end (Python 3):
  \<^item> the exit code;
  \<^item> \<open>stdout\<close>, the captured output as bytes, which is what \<^verbatim>\<open>Popen.communicate\<close> hands
    back;
  \<^item> \<open>stdout_text\<close>, the same output as \<^verbatim>\<open>universal_newlines=True\<close> decodes it, or \<open>None\<close>
    when the decoder refuses it;
  \<^item> the files found afterwards, by path.
  Starting a process can fail; \<open>spawn\<close> then answers with the exception (\<^verbatim>\<open>OSError\<close> for
  an executable that cannot be started).
\<close>

record child =
  returncode :: int
  stdout :: string
  stdout_text :: "string option"
  files :: "string \<rightharpoonup> file_content"

type_synonym spawner = "string list \<Rightarrow> exn + child"

text \<open>
  \<^verbatim>\<open>subprocess.check_output(args, stderr=subprocess.STDOUT, universal_newlines=True)\<close>:
  the output is read and decoded first, then the exit code is checked.
\<close>

definition check_output :: "spawner \<Rightarrow> string list \<Rightarrow> exn + string" where
  "check_output spawn args =
     (case spawn args of
        Inl e \<Rightarrow> Inl e
      | Inr p \<Rightarrow>
          (case stdout_text p of
             None \<Rightarrow> Inl UnicodeDecodeError
           | Some output \<Rightarrow>
               if returncode p \<noteq> 0 then Inl CalledProcessError else Inr output))"

text \<open>
  The local function \<^verbatim>\<open>read_file\<close> of \<^verbatim>\<open>_run_tests_fallback\<close>: a file that cannot be opened
  is an \<^verbatim>\<open>IOError\<close>, which is caught and turned into \<^verbatim>\<open>None\<close>; a file that does not decode
  is a \<^verbatim>\<open>UnicodeDecodeError\<close>, which is not caught.
\<close>

definition read_file :: "(string \<rightharpoonup> file_content) \<Rightarrow> string \<Rightarrow> exn + string option" where
  "read_file fs nm =
     (case fs nm of
        None \<Rightarrow> Inr None
      | Some (Text content) \<Rightarrow> Inr (Some content)
      | Some Undecodable \<Rightarrow> Inl UnicodeDecodeError)"

text \<open>\<^verbatim>\<open>posixpath.join(a, b)\<close> for two components.\<close>

definition path_join :: "string \<Rightarrow> string \<Rightarrow> string" where
  "path_join a b =
     (if prefix ''/'' b then b
      else if a = [] \<or> suffix ''/'' a then a @ b
      else a @ ''/'' @ b)"

section \<open>Running tests\<close>

text \<open>
  What a run hands back: \<^verbatim>\<open>None\<close> (the test passed), a list of failure records, or, on one
  path of \<^verbatim>\<open>_run_tests\<close>, the list of tuples of the JUnit reader as it is. A run can also
  end in an exception, \<open>Skipped\<close> among them.
\<close>

type_synonym junit_result = "string \<times> string option list \<times> bool"

datatype run_value =
    NoneValue
  | Failures "BoostTestFailure list"
  | RawResults "junit_result list"

datatype outcome =
    Returned run_value
  | Raised exn

subsection \<open>The native path\<close>

text \<open>
  \<^verbatim>\<open>repr\<close> of a \<^verbatim>\<open>bytes\<close> object, which is what \<^verbatim>\<open>str.format\<close> inserts for it: the letter
  \<open>b\<close> and the bytes between quotes (double quotes when the bytes hold a single quote and no
  double quote), with the quote and the backslash escaped, tab, line feed and carriage
  return as \<open>\t\<close>, \<open>\n\<close>, \<open>\r\<close>, and every other byte outside the printable ASCII range
  as \<open>\x\<close> and two hexadecimal digits.
\<close>

definition hex2 :: "nat \<Rightarrow> string" where
  "hex2 n = [''0123456789abcdef'' ! (n div 16), ''0123456789abcdef'' ! (n mod 16)]"

definition repr_byte :: "char \<Rightarrow> char \<Rightarrow> string" where
  "repr_byte quote c =
     (let n = (of_char c :: nat)
      in if c = quote \<or> c = CHR 0x5C then [CHR 0x5C, c]
         else if c = CHR 0x09 then [CHR 0x5C, CHR ''t'']
         else if c = CHR 0x0A then [CHR 0x5C, CHR ''n'']
         else if c = CHR 0x0D then [CHR 0x5C, CHR ''r'']
         else if n < 32 \<or> 127 \<le> n then CHR 0x5C # CHR ''x'' # hex2 n
         else [c])"

definition bytes_repr :: "string \<Rightarrow> string" where
  "bytes_repr bs =
     (let quote = (if CHR 0x27 \<in> set bs \<and> CHR 0x22 \<notin> set bs then CHR 0x22 else CHR 0x27)
      in CHR ''b'' # quote # concat (map (repr_byte quote) bs) @ [quote])"

text \<open>
  The message of the internal error: the format string of \<^verbatim>\<open>_run_tests_fallback\<close> with its
  six fields filled in. The captured output is bytes; the log and the report are a text or
  \<^verbatim>\<open>None\<close>.
\<close>

definition internal_error_message ::
    "string \<Rightarrow> string \<Rightarrow> int \<Rightarrow> string \<Rightarrow> string option \<Rightarrow> string option \<Rightarrow> string" where
  "internal_error_message executable test_id rc out log report =
     ''Internal Error: calling '' @ executable @ '' for test '' @ test_id
       @ '' failed (returncode='' @ str_int rc @ ''):'' @ [newline]
       @ ''output:'' @ bytes_repr out @ [newline]
       @ ''log:'' @ format_opt log @ [newline]
       @ ''report:'' @ format_opt report"

definition fallback_args :: "string \<Rightarrow> string \<Rightarrow> string list \<Rightarrow> string list" where
  "fallback_args temp_dir executable test_args =
     [executable,
      ''--output_format=XML'',
      ''--log_sink='' @ path_join temp_dir ''log.xml'',
      ''--report_sink='' @ path_join temp_dir ''report.xml''] @ test_args"

text \<open>
  \<^verbatim>\<open>BoostTestFacade._run_tests_fallback\<close>; \<open>temp_dir\<close> is the directory that
  \<^verbatim>\<open>tempfile.mkdtemp()\<close> made.
\<close>

definition run_tests_fallback ::
    "xml_reader \<Rightarrow> spawner \<Rightarrow> string \<Rightarrow> string \<Rightarrow> string \<Rightarrow> string list \<Rightarrow> outcome" where
  "run_tests_fallback et spawn temp_dir executable test_id test_args =
     (let log_xml = path_join temp_dir ''log.xml'';
          report_xml = path_join temp_dir ''report.xml''
      in case spawn (fallback_args temp_dir executable test_args) of
           Inl e \<Rightarrow> Raised e
         | Inr p \<Rightarrow>
             (case read_file (files p) log_xml of
                Inl e \<Rightarrow> Raised e
              | Inr log \<Rightarrow>
                  (case read_file (files p) report_xml of
                     Inl e \<Rightarrow> Raised e
                   | Inr report \<Rightarrow>
                       if returncode p \<notin> set [0, 200, 201] then
                         (case new_BoostTestFailure ''<no source file>'' 0
                                 (Some (internal_error_message executable test_id
                                          (returncode p) (stdout p) log report)) of
                            Inl e \<Rightarrow> Raised e
                          | Inr failure \<Rightarrow> Returned (Failures [failure]))
                       else if (case report of
                                  None \<Rightarrow> False
                                | Some r \<Rightarrow> prefix ''Boost.Test framework internal error: '' r
                                             \<or> prefix ''Test setup error: '' r) then
                         (case new_BoostTestFailure ''unknown location'' 0 report of
                            Inl e \<Rightarrow> Raised e
                          | Inr failure \<Rightarrow> Returned (Failures [failure]))
                       else
                         (case parse_log et log of
                            Inl e \<Rightarrow> Raised e
                          | Inr results \<Rightarrow>
                              if results \<noteq> [] then Returned (Failures results)
                              else Returned NoneValue))))"

subsection \<open>The JUnit reader\<close>

text \<open>The inner loop of \<^verbatim>\<open>junit_xml.parse\<close>, over the test cases of one suite.\<close>

fun parse_cases :: "string \<Rightarrow> element list \<Rightarrow> exn + junit_result list" where
  "parse_cases test_suite_name [] = Inr []"
| "parse_cases test_suite_name (test_case # test_cases) =
     (case attrib_get test_case ''name'' of
        Inl e \<Rightarrow> Inl e
      | Inr test_name \<Rightarrow>
          (let failures = map elem_text (findall test_case ''failure'')
           in case attrib_get test_case ''status'' of
                Inl e \<Rightarrow> Inl e
              | Inr status \<Rightarrow>
                  (let skipped = (status = ''notrun'')
                   in case parse_cases test_suite_name test_cases of
                        Inl e \<Rightarrow> Inl e
                      | Inr result \<Rightarrow>
                          Inr ((test_suite_name @ ''.'' @ test_name, failures, skipped) # result))))"

text \<open>The outer loop, over the suites.\<close>

fun parse_suites :: "element list \<Rightarrow> exn + junit_result list" where
  "parse_suites [] = Inr []"
| "parse_suites (test_suite # test_suites) =
     (case attrib_get test_suite ''name'' of
        Inl e \<Rightarrow> Inl e
      | Inr test_suite_name \<Rightarrow>
          (case parse_cases test_suite_name (findall test_suite ''testcase'') of
             Inl e \<Rightarrow> Inl e
           | Inr here \<Rightarrow>
               (case parse_suites test_suites of
                  Inl e \<Rightarrow> Inl e
                | Inr result \<Rightarrow> Inr (here @ result))))"

text \<open>
  \<^verbatim>\<open>junit_xml.parse(filename)\<close>: \<^verbatim>\<open>ElementTree.parse\<close> opens the file (an \<^verbatim>\<open>OSError\<close> when
  there is none) and reads the document; \<^verbatim>\<open>findall\<close> on the tree searches below the root
  element. The XML reader decodes the file by its own rules (the encoding that the document
  declares), so a file that does not read as text is outside what is modelled here.
\<close>

definition parse ::
    "xml_reader \<Rightarrow> (string \<rightharpoonup> file_content) \<Rightarrow> string \<Rightarrow> exn + junit_result list" where
  "parse et fs fname =
     (case fs fname of
        None \<Rightarrow> Inl OSError
      | Some Undecodable \<Rightarrow> Inl NotModelled
      | Some (Text content) \<Rightarrow>
          (case et content of
             Inl e \<Rightarrow> Inl e
           | Inr root \<Rightarrow> parse_suites (findall root ''testsuite'')))"

text \<open>
  The names that the module \<^verbatim>\<open>junit_xml\<close> defines, for the attribute access
  \<^verbatim>\<open>junit_xml.<name>\<close>: the module defines the function \<^verbatim>\<open>parse\<close> and nothing else that
  reads a report.
\<close>

type_synonym junit_reader =
  "(string \<rightharpoonup> file_content) \<Rightarrow> string \<Rightarrow> exn + junit_result list"

definition junit_xml_getattr :: "xml_reader \<Rightarrow> string \<Rightarrow> junit_reader option" where
  "junit_xml_getattr et attr = (if attr = ''parse'' then Some (parse et) else None)"

subsection \<open>The JUnit path\<close>

text \<open>
  The loop of \<^verbatim>\<open>_run_tests\<close> over the results; \<open>None\<close> when it ends without leaving the
  function. \<^verbatim>\<open>BoostTestFailure(x)\<close> passes one argument to a constructor that requires
  three, which is a type error at the first message.
\<close>

fun scan_results :: "string \<Rightarrow> junit_result list \<Rightarrow> outcome option" where
  "scan_results test_id [] = None"
| "scan_results test_id ((executed_test_id, failures, skipped) # results) =
     (if executed_test_id = test_id then
        (if failures \<noteq> [] then Some (Raised TypeError)
         else if skipped then Some (Raised Skipped)
         else Some (Returned NoneValue))
      else scan_results test_id results)"

definition junit_args :: "string \<Rightarrow> string \<Rightarrow> string list \<Rightarrow> string list" where
  "junit_args log_xml executable test_args =
     [executable, ''--log_format=JUNIT'', ''--log_sink='' @ log_xml] @ test_args"

text \<open>
  The body of \<^verbatim>\<open>_run_tests\<close> for a given reader of the report; \<open>log_xml\<close> is the path that
  \<^verbatim>\<open>tempfile.mkstemp\<close> made.
\<close>

definition run_tests_with ::
    "junit_reader \<Rightarrow> spawner \<Rightarrow> string \<Rightarrow> string \<Rightarrow> string \<Rightarrow> string list \<Rightarrow> outcome" where
  "run_tests_with get_failures spawn log_xml executable test_id test_args =
     (case spawn (junit_args log_xml executable test_args) of
        Inl e \<Rightarrow> Raised e
      | Inr p \<Rightarrow>
          (case get_failures (files p) log_xml of
             Inl e \<Rightarrow> Raised e
           | Inr results \<Rightarrow>
               (case scan_results test_id results of
                  Some out \<Rightarrow> out
                | None \<Rightarrow>
                    if results \<noteq> [] then Returned (RawResults results)
                    else Returned NoneValue)))"

text \<open>
  \<^verbatim>\<open>BoostTestFacade._run_tests\<close>: after the child has run, the reader is looked up as
  \<^verbatim>\<open>junit_xml.get_failures\<close>; a name that the module does not define is an attribute error.
\<close>

definition run_tests ::
    "xml_reader \<Rightarrow> spawner \<Rightarrow> string \<Rightarrow> string \<Rightarrow> string \<Rightarrow> string list \<Rightarrow> outcome" where
  "run_tests et spawn log_xml executable test_id test_args =
     (case spawn (junit_args log_xml executable test_args) of
        Inl e \<Rightarrow> Raised e
      | Inr p \<Rightarrow>
          (case junit_xml_getattr et ''get_failures'' of
             None \<Rightarrow> Raised AttributeError
           | Some get_failures \<Rightarrow>
               run_tests_with get_failures spawn log_xml executable test_id test_args))"

section \<open>Probing the executable\<close>

text \<open>
  \<open>find_after pat s\<close> is what follows the first occurrence of \<open>pat\<close> in \<open>s\<close>.
\<close>

fun find_after :: "string \<Rightarrow> string \<Rightarrow> string option" where
  "find_after pat [] = (if pat = [] then Some [] else None)"
| "find_after pat (c # cs) =
     (if prefix pat (c # cs) then Some (drop (length pat) (c # cs)) else find_after pat cs)"

text \<open>
  \<^verbatim>\<open>_JUNIT_LOG_FORMAT.search(output)\<close> for the pattern
  \<^verbatim>\<open>^.*--log_format=<.*JUNIT.*>.*?$\<close> with \<^verbatim>\<open>re.MULTILINE\<close>: the dot stays inside a line, so
  the pattern is found when some line holds \<^verbatim>\<open>--log_format=<\<close>, later \<^verbatim>\<open>JUNIT\<close> and later
  \<^verbatim>\<open>>\<close>; taking the first occurrence each time loses no match.
\<close>

definition junit_line :: "string \<Rightarrow> bool" where
  "junit_line l =
     (case find_after ''--log_format=<'' l of
        None \<Rightarrow> False
      | Some r \<Rightarrow>
          (case find_after ''JUNIT'' r of
             None \<Rightarrow> False
           | Some r' \<Rightarrow> CHR ''>'' \<in> set r'))"

definition junit_log_format_search :: "string \<Rightarrow> bool" where
  "junit_log_format_search output = list_ex junit_line (get_lines_iter output)"

text \<open>\<^verbatim>\<open>needle in text\<close>\<close>

definition contains :: "string \<Rightarrow> string \<Rightarrow> bool" where
  "contains needle s = (find_after needle s \<noteq> None)"

text \<open>\<^verbatim>\<open>BoostTestFacade.is_test_suite\<close>: both exceptions of the probe are caught.\<close>

definition is_test_suite :: "spawner \<Rightarrow> string \<Rightarrow> exn + bool" where
  "is_test_suite spawn executable =
     (case check_output spawn [executable, ''--help''] of
        Inl e \<Rightarrow> if e = CalledProcessError \<or> e = OSError then Inr False else Inl e
      | Inr output \<Rightarrow> Inr (contains ''--output_format'' output \<and> contains ''log_format'' output))"

datatype list_strategy = ListFallback | ListHierarchical

datatype run_strategy = RunFallback | RunJUnit

record Facade =
  list_test_fn :: list_strategy
  run_test_fn :: run_strategy

text \<open>
  \<^verbatim>\<open>BoostTestFacade.create_facade\<close>: only \<^verbatim>\<open>subprocess.CalledProcessError\<close> is caught.
\<close>

definition create_facade :: "spawner \<Rightarrow> string \<Rightarrow> exn + Facade" where
  "create_facade spawn executable =
     (case check_output spawn [executable, ''--help''] of
        Inl e \<Rightarrow>
          if e = CalledProcessError
          then Inr \<lparr>list_test_fn = ListFallback, run_test_fn = RunFallback\<rparr>
          else Inl e
      | Inr output \<Rightarrow>
          Inr \<lparr>list_test_fn = ListFallback,
               run_test_fn = (if junit_log_format_search output then RunJUnit else RunFallback)\<rparr>)"

text \<open>
  \<^verbatim>\<open>BoostTestFacade.run_test\<close>: the \<^verbatim>\<open>try\<close> block holds the probe and the run, and only
  \<^verbatim>\<open>subprocess.CalledProcessError\<close> is caught. \<open>temp_dir\<close> and \<open>temp_file\<close> are the fresh
  paths that \<^verbatim>\<open>tempfile\<close> hands out.
\<close>

definition run_test ::
    "xml_reader \<Rightarrow> spawner \<Rightarrow> string \<Rightarrow> string \<Rightarrow> string \<Rightarrow> string \<Rightarrow> string list \<Rightarrow> outcome" where
  "run_test et spawn temp_dir temp_file executable test_id test_args =
     (let attempt =
            (case check_output spawn [executable, ''--help''] of
               Inl e \<Rightarrow> Raised e
             | Inr output \<Rightarrow>
                 if junit_log_format_search output
                 then run_tests et spawn temp_file executable test_id test_args
                 else run_tests_fallback et spawn temp_dir executable test_id test_args)
      in if attempt = Raised CalledProcessError
         then run_tests_fallback et spawn temp_dir executable test_id test_args
         else attempt)"

text \<open>
  \<^verbatim>\<open>BoostTestFacade._list_tests\<close>: the call of the executable, then the loop over its output.
\<close>

definition list_tests_hierarchical :: "spawner \<Rightarrow> string \<Rightarrow> exn + string list" where
  "list_tests_hierarchical spawn executable =
     (case check_output spawn [executable, ''--list_content=HRF''] of
        Inl e \<Rightarrow> Inl e
      | Inr output \<Rightarrow> Inr (list_content output))"

section \<open>Properties of the fallback listing\<close>

text \<open>
  \<open>rfind_from\<close> answers \<open>-1\<close> exactly when the character is absent from the scanned part,
  and otherwise the last index that holds it.
\<close>

lemma nat_int_succ: "nat (int m + 1) = Suc m" "nat (1 + int m) = Suc m"
  by simp_all

lemma rfind_from_char:
  "(rfind_from p c m = - 1 \<and> (\<forall>i<m. p ! i \<noteq> c)) \<or>
   (0 \<le> rfind_from p c m \<and> rfind_from p c m < int m \<and> p ! nat (rfind_from p c m) = c \<and>
      (\<forall>i<m. rfind_from p c m < int i \<longrightarrow> p ! i \<noteq> c))"
proof (induction m)
  case 0
  show ?case by simp
next
  case (Suc m)
  show ?case
  proof (cases "p ! m = c")
    case True
    then show ?thesis by (auto simp: less_Suc_eq)
  next
    case False
    with Suc show ?thesis by (auto simp: less_Suc_eq)
  qed
qed

lemma rfind_absent: "c \<notin> set p \<Longrightarrow> rfind p c = - 1"
  using rfind_from_char [of p c "length p"] unfolding rfind_def
  by (metis nat_less_iff nth_mem)

lemma rfind_last:
  assumes "c \<notin> set n"
  shows "rfind (a @ c # n) c = int (length a)"
proof -
  let ?p = "a @ c # n"
  let ?r = "rfind_from ?p c (length ?p)"
  have at: "?p ! length a = c" by simp
  have la: "length a < length ?p" by simp
  have "\<not> (\<forall>i<length ?p. ?p ! i \<noteq> c)" using at la by blast
  with rfind_from_char [of ?p c "length ?p"]
  have r: "0 \<le> ?r" "?r < int (length ?p)" "?p ! nat ?r = c"
      "\<forall>i<length ?p. ?r < int i \<longrightarrow> ?p ! i \<noteq> c"
    by blast+
  have "\<not> ?r < int (length a)" using r(4) at la by blast
  moreover have "\<not> int (length a) < ?r"
  proof
    assume gt: "int (length a) < ?r"
    then obtain k where k: "nat ?r = length a + Suc k" "k < length n"
      using r(2) by (auto simp: nat_less_iff intro: that [of "nat ?r - length a - 1"])
    then have "?p ! nat ?r = n ! k" by (simp add: nth_append)
    with r(3) k(2) assms show False by (metis nth_mem)
  qed
  ultimately show ?thesis by (simp add: rfind_def)
qed

lemma rfind_append_present:
  assumes "c \<in> set n"
  shows "rfind (a @ n) c = int (length a) + rfind n c"
proof -
  from assms obtain u v where n: "n = u @ c # v" "c \<notin> set v"
    by (meson split_list_last)
  have "rfind ((a @ u) @ c # v) c = int (length (a @ u))" using n(2) by (rule rfind_last)
  moreover have "rfind (u @ c # v) c = int (length u)" using n(2) by (rule rfind_last)
  ultimately show ?thesis by (simp add: n(1))
qed

lemma rfind_bounds: "- 1 \<le> rfind p c \<and> rfind p c < int (length p)"
  using rfind_from_char [of p c "length p"] unfolding rfind_def by auto

lemma rfind_present: "c \<in> set p \<Longrightarrow> 0 \<le> rfind p c"
  by (metis split_list_last rfind_last of_nat_0_le_iff)

lemma rfind_before:
  assumes "c \<notin> set n" "d \<noteq> c"
  shows "rfind (a @ d # n) c < int (length a)"
proof (cases "c \<in> set a")
  case False
  then have "c \<notin> set (a @ d # n)" using assms by auto
  then show ?thesis by (simp add: rfind_absent)
next
  case True
  then obtain u v where a: "a = u @ c # v" "c \<notin> set v" by (meson split_list_last)
  have "rfind (u @ c # (v @ d # n)) c = int (length u)"
    by (rule rfind_last) (use a assms in auto)
  then show ?thesis by (simp add: a(1))
qed

lemma skip_leading_dots_shift:
  "skip_leading_dots (a @ n) (length a + i) (length a + j) = skip_leading_dots n i j"
proof (induction n i j rule: skip_leading_dots.induct)
  case (1 p i j)
  show ?case
  proof (cases "i < j")
    case True
    with 1 show ?thesis
      by (subst skip_leading_dots.simps, subst (2) skip_leading_dots.simps)
         (auto simp: nth_append)
  next
    case False
    then show ?thesis
      by (subst skip_leading_dots.simps, subst (2) skip_leading_dots.simps) simp
  qed
qed

lemma basename_no_sep: "CHR ''/'' \<notin> set p \<Longrightarrow> basename p = p"
  by (simp add: basename_def rfind_absent)

lemma basename_sep: "CHR ''/'' \<notin> set n \<Longrightarrow> basename (a @ CHR ''/'' # n) = n"
  by (simp add: basename_def rfind_last nat_int_succ)

lemma basename_splitext_commute: "basename (fst (splitext p)) = fst (splitext (basename p))"
proof (cases "CHR ''/'' \<in> set p")
  case False
  then have "CHR ''/'' \<notin> set (take k p)" for k by (meson in_set_takeD)
  then show ?thesis using False
    by (simp add: basename_no_sep splitext_def Let_def)
next
  case True
  then obtain a n where p: "p = a @ CHR ''/'' # n" "CHR ''/'' \<notin> set n"
    by (meson split_list_last)
  have bn: "basename p = n" using p by (simp add: basename_sep)
  have sep: "rfind p CHR ''/'' = int (length a)" using p by (simp add: rfind_last)
  have sepn: "rfind n CHR ''/'' = - 1" using p(2) by (rule rfind_absent)
  show ?thesis
  proof (cases "CHR ''.'' \<in> set n")
    case False
    have "rfind p CHR ''.'' < int (length a)"
      unfolding p(1) by (rule rfind_before) (use False in auto)
    moreover have "rfind n CHR ''.'' = - 1" using False by (rule rfind_absent)
    ultimately show ?thesis using bn sep sepn by (simp add: splitext_def Let_def)
  next
    case dot: True
    define k where "k = nat (rfind n CHR ''.'')"
    have k: "rfind n CHR ''.'' = int k" "k < length n"
      using rfind_present [OF dot] rfind_bounds [of n "CHR ''.''"] by (auto simp: k_def)
    have dot_eq: "rfind ((a @ ''/'') @ n) CHR ''.'' = int (length (a @ ''/'')) + rfind n CHR ''.''"
      using dot by (rule rfind_append_present)
    define d where "d = length a + 1 + k"
    have dotp: "rfind p CHR ''.'' = int d"
      using dot_eq k p(1) by (simp add: d_def)
    have d: "length a < d" "take d p = a @ CHR ''/'' # take k n"
      by (simp_all add: d_def p(1))
    have "skip_leading_dots ((a @ ''/'') @ n) (length (a @ ''/'') + 0) (length (a @ ''/'') + k)
            = skip_leading_dots n 0 k"
      by (rule skip_leading_dots_shift)
    then have skip: "skip_leading_dots p (Suc (length a)) d = skip_leading_dots n 0 k"
      using p(1) by (simp add: d_def)
    have split_p: "fst (splitext p) = (if skip_leading_dots n 0 k then take d p else p)"
      using skip sep dotp d(1) by (simp add: splitext_def Let_def nat_int_succ)
    have split_n: "fst (splitext n) = (if skip_leading_dots n 0 k then take k n else n)"
      using sepn k by (simp add: splitext_def Let_def)
    have "basename (take d p) = take k n"
      unfolding d(2) using p(2) by (metis basename_sep in_set_takeD)
    then show ?thesis using split_p split_n bn by simp
  qed
qed

lemma skip_leading_dots_iff:
  "skip_leading_dots p i j \<longleftrightarrow> (\<exists>k. i \<le> k \<and> k < j \<and> p ! k \<noteq> CHR ''.'')"
proof (induction p i j rule: skip_leading_dots.induct)
  case (1 p i j)
  show ?case
  proof (cases "i < j")
    case False
    then show ?thesis by (subst skip_leading_dots.simps) auto
  next
    case True
    show ?thesis
    proof (cases "p ! i \<noteq> CHR ''.''")
      case notdot: True
      then have "skip_leading_dots p i j" using True by (subst skip_leading_dots.simps) simp
      moreover have "\<exists>k. i \<le> k \<and> k < j \<and> p ! k \<noteq> CHR ''.''" using True notdot by blast
      ultimately show ?thesis by blast
    next
      case dot: False
      then have "skip_leading_dots p i j = skip_leading_dots p (Suc i) j"
        using True by (subst skip_leading_dots.simps) simp
      also have "\<dots> \<longleftrightarrow> (\<exists>k. Suc i \<le> k \<and> k < j \<and> p ! k \<noteq> CHR ''.'')"
        using 1 True dot by simp
      also have "\<dots> \<longleftrightarrow> (\<exists>k. i \<le> k \<and> k < j \<and> p ! k \<noteq> CHR ''.'')"
        using dot by (metis Suc_leD Suc_leI le_neq_implies_less)
      finally show ?thesis .
    qed
  qed
qed

text \<open>
  The base name of a path whose last component is known: everything up to and including
  the last slash goes.
\<close>

lemma basename_last_component:
  assumes "dir = [] \<or> last dir = CHR ''/''" and "CHR ''/'' \<notin> set nm"
  shows "basename (dir @ nm) = nm"
proof (cases "dir = []")
  case True
  then show ?thesis using assms(2) by (simp add: basename_no_sep)
next
  case False
  then obtain d where "dir = d @ [CHR ''/'']" using assms(1)
    by (metis append_butlast_last_id)
  then show ?thesis using assms(2) by (simp add: basename_sep)
qed

text \<open>
  A component \<open>stem.ext\<close>, where \<open>ext\<close> has no dot and \<open>stem\<close> is not made of dots only,
  loses \<open>.ext\<close>.
\<close>

lemma splitext_stem_ext:
  assumes "CHR ''/'' \<notin> set stem" and "CHR ''/'' \<notin> set ext" and "CHR ''.'' \<notin> set ext"
      and "\<exists>c\<in>set stem. c \<noteq> CHR ''.''"
  shows "fst (splitext (stem @ ''.'' @ ext)) = stem"
proof -
  let ?n = "stem @ CHR ''.'' # ext"
  have sep: "rfind ?n CHR ''/'' = - 1" using assms(1,2) by (simp add: rfind_absent)
  have dot: "rfind ?n CHR ''.'' = int (length stem)" using assms(3) by (rule rfind_last)
  from assms(4) obtain k where k: "k < length stem" "stem ! k \<noteq> CHR ''.''"
    by (metis in_set_conv_nth)
  then have "?n ! k \<noteq> CHR ''.''" by (simp add: nth_append)
  then have "skip_leading_dots ?n 0 (length stem)"
    using k(1) by (auto simp: skip_leading_dots_iff)
  then show ?thesis using sep dot by (simp add: splitext_def Let_def)
qed

text \<open>
  A component without a dot, or with dots at its start only, keeps its whole name.
\<close>

lemma splitext_leading_dots:
  assumes "set dots \<subseteq> {CHR ''.''}" and "CHR ''.'' \<notin> set rest" and "CHR ''/'' \<notin> set rest"
  shows "fst (splitext (dots @ rest)) = dots @ rest"
proof (cases "dots = []")
  case True
  then have "rfind (dots @ rest) CHR ''.'' = - 1" using assms(2) by (simp add: rfind_absent)
  moreover have "- 1 \<le> rfind (dots @ rest) CHR ''/''" using rfind_bounds by blast
  ultimately show ?thesis by (simp add: splitext_def Let_def)
next
  case False
  let ?n = "dots @ rest"
  obtain ds where ds: "dots = ds @ [CHR ''.'']"
    using False assms(1) by (metis append_butlast_last_id last_in_set singletonD subsetD)
  have "rfind (ds @ CHR ''.'' # rest) CHR ''.'' = int (length ds)" using assms(2) by (rule rfind_last)
  then have dot: "rfind ?n CHR ''.'' = int (length ds)" using ds by simp
  have "\<not> (\<exists>k. 0 \<le> k \<and> k < length ds \<and> ?n ! k \<noteq> CHR ''.'')"
  proof
    assume "\<exists>k. 0 \<le> k \<and> k < length ds \<and> ?n ! k \<noteq> CHR ''.''"
    then obtain k where k: "k < length ds" "?n ! k \<noteq> CHR ''.''" by blast
    then have "?n ! k = ds ! k" using ds by (simp add: nth_append)
    moreover have "ds ! k \<in> set dots" using k(1) ds by simp
    ultimately show False using k(2) assms(1) by auto
  qed
  then have "\<not> skip_leading_dots ?n 0 (length ds)" by (simp add: skip_leading_dots_iff)
  moreover have "CHR ''/'' \<notin> set ?n" using assms(1,3) by auto
  then have "rfind ?n CHR ''/'' = - 1" by (rule rfind_absent)
  ultimately show ?thesis using dot by (simp add: splitext_def Let_def)
qed

text \<open>
  Every path is a directory part followed by a last component without a slash, and every
  component has one of the two shapes above.
\<close>

lemma component_shapes:
  "(\<exists>stem ext. nm = stem @ ''.'' @ ext \<and> CHR ''.'' \<notin> set ext
                       \<and> (\<exists>c\<in>set stem. c \<noteq> CHR ''.''))
        \<or> (\<exists>dots rest. nm = dots @ rest \<and> set dots \<subseteq> {CHR ''.''} \<and> CHR ''.'' \<notin> set rest)"
proof (cases "CHR ''.'' \<in> set nm")
  case False
  then have "nm = [] @ nm \<and> set [] \<subseteq> {CHR ''.''} \<and> CHR ''.'' \<notin> set nm" by simp
  then have "\<exists>dots rest. nm = dots @ rest \<and> set dots \<subseteq> {CHR ''.''} \<and> CHR ''.'' \<notin> set rest"
    by (intro exI)
  then show ?thesis by (rule disjI2)
next
  case True
  then obtain s e where se: "nm = s @ CHR ''.'' # e" "CHR ''.'' \<notin> set e"
    by (meson split_list_last)
  show ?thesis
  proof (cases "\<exists>c\<in>set s. c \<noteq> CHR ''.''")
    case True
    then have "nm = s @ ''.'' @ e \<and> CHR ''.'' \<notin> set e \<and> (\<exists>c\<in>set s. c \<noteq> CHR ''.'')"
      using se by simp
    then have "\<exists>stem ext. nm = stem @ ''.'' @ ext \<and> CHR ''.'' \<notin> set ext
                       \<and> (\<exists>c\<in>set stem. c \<noteq> CHR ''.'')"
      by (intro exI)
    then show ?thesis by (rule disjI1)
  next
    case False
    then have "set (s @ ''.'') \<subseteq> {CHR ''.''}" by auto
    then have "nm = (s @ ''.'') @ e \<and> set (s @ ''.'') \<subseteq> {CHR ''.''} \<and> CHR ''.'' \<notin> set e"
      using se by simp
    then have "\<exists>dots rest. nm = dots @ rest \<and> set dots \<subseteq> {CHR ''.''} \<and> CHR ''.'' \<notin> set rest"
      by (intro exI)
    then show ?thesis by (rule disjI2)
  qed
qed

lemma path_split:
  "\<exists>dir nm. p = dir @ nm \<and> (dir = [] \<or> last dir = CHR ''/'') \<and> CHR ''/'' \<notin> set nm"
proof (cases "CHR ''/'' \<in> set p")
  case False
  then have "p = [] @ p \<and> ([] = [] \<or> last [] = CHR ''/'') \<and> CHR ''/'' \<notin> set p" by simp
  then show ?thesis by (intro exI)
next
  case True
  then obtain a n where an: "p = a @ CHR ''/'' # n" "CHR ''/'' \<notin> set n"
    by (meson split_list_last)
  then have "p = (a @ ''/'') @ n \<and> (a @ ''/'' = [] \<or> last (a @ ''/'') = CHR ''/'')
      \<and> CHR ''/'' \<notin> set n"
    by simp
  then show ?thesis by (intro exI)
qed

text \<open>
  C3. For every executable path the fallback listing, reached directly or through
  \<open>list_tests\<close>, is a list of exactly one identifier, never empty, and the identifier is
  the base name of the executable with its extension removed:
  \<^item> for a path \<open>dir/stem.ext\<close> (or \<open>stem.ext\<close> without a directory), where \<open>ext\<close> has no
    dot and \<open>stem\<close> is not made of dots only, the identifier is \<open>stem\<close>;
  \<^item> for a path whose last component has no dot, or dots at its start only, the identifier
    is that component.
  Every path has one of the two shapes (\<open>path_split\<close>, \<open>component_shapes\<close>). The
  listing is also computed on five paths.
\<close>

theorem list_tests_fallback_single:
  "list_tests executable = list_tests_fallback executable
   \<and> length (list_tests executable) = 1
   \<and> list_tests executable \<noteq> []
   \<and> ((dir = [] \<or> last dir = CHR ''/'') \<and> CHR ''/'' \<notin> set stem \<and> CHR ''/'' \<notin> set ext
        \<and> CHR ''.'' \<notin> set ext \<and> (\<exists>c\<in>set stem. c \<noteq> CHR ''.'')
        \<longrightarrow> list_tests (dir @ stem @ ''.'' @ ext) = [stem])
   \<and> ((dir' = [] \<or> last dir' = CHR ''/'') \<and> set dots \<subseteq> {CHR ''.''}
        \<and> CHR ''.'' \<notin> set rest \<and> CHR ''/'' \<notin> set rest
        \<longrightarrow> list_tests (dir' @ dots @ rest) = [dots @ rest])
   \<and> list_tests ''/usr/bin/test.exe'' = [''test'']
   \<and> list_tests ''build/suite.v2.bin'' = [''suite.v2'']
   \<and> list_tests ''./runner'' = [''runner'']
   \<and> list_tests ''/opt/.hidden'' = [''.hidden'']
   \<and> list_tests ''rel.d/prog'' = [''prog'']"
proof -
  have eq: "list_tests p = [fst (splitext (basename p))]" for p
    by (simp add: list_tests_def list_tests_fallback_def basename_splitext_commute)
  have a: "list_tests executable = list_tests_fallback executable"
    by (simp add: list_tests_def)
  have b: "length (list_tests executable) = 1" "list_tests executable \<noteq> []"
    by (simp_all add: eq)
  have c: "list_tests (dir @ stem @ ''.'' @ ext) = [stem]"
    if h: "(dir = [] \<or> last dir = CHR ''/'') \<and> CHR ''/'' \<notin> set stem \<and> CHR ''/'' \<notin> set ext
        \<and> CHR ''.'' \<notin> set ext \<and> (\<exists>c\<in>set stem. c \<noteq> CHR ''.'')"
  proof -
    have "CHR ''/'' \<notin> set (stem @ ''.'' @ ext)" using h by simp
    then have "basename (dir @ stem @ ''.'' @ ext) = stem @ ''.'' @ ext"
      using h basename_last_component by blast
    moreover have "fst (splitext (stem @ ''.'' @ ext)) = stem"
      using h by (intro splitext_stem_ext) blast+
    ultimately show ?thesis by (simp add: eq)
  qed
  have d: "list_tests (dir' @ dots @ rest) = [dots @ rest]"
    if h: "(dir' = [] \<or> last dir' = CHR ''/'') \<and> set dots \<subseteq> {CHR ''.''}
        \<and> CHR ''.'' \<notin> set rest \<and> CHR ''/'' \<notin> set rest"
  proof -
    have "CHR ''/'' \<notin> set (dots @ rest)" using h by auto
    then have "basename (dir' @ dots @ rest) = dots @ rest"
      using h basename_last_component by blast
    moreover have "fst (splitext (dots @ rest)) = dots @ rest"
      using h by (intro splitext_leading_dots) blast+
    ultimately show ?thesis by (simp add: eq)
  qed
  have e1: "list_tests ''/usr/bin/test.exe'' = [''test'']" by code_simp
  have e2: "list_tests ''build/suite.v2.bin'' = [''suite.v2'']" by code_simp
  have e3: "list_tests ''./runner'' = [''runner'']" by code_simp
  have e4: "list_tests ''/opt/.hidden'' = [''.hidden'']" by code_simp
  have e5: "list_tests ''rel.d/prog'' = [''prog'']" by code_simp
  show ?thesis using a b c d e1 e2 e3 e4 e5 by blast
qed

theorem list_tests_fallback_single_witness:
  "list_tests (''/usr/bin/'' @ ''test'' @ ''.'' @ ''exe'') = [''test'']
   \<and> list_tests (''/opt/'' @ ''.'' @ ''hidden'') = [''.'' @ ''hidden'']"
proof -
  have h1: "(''/usr/bin/'' = [] \<or> last ''/usr/bin/'' = CHR ''/'') \<and> CHR ''/'' \<notin> set ''test''
      \<and> CHR ''/'' \<notin> set ''exe'' \<and> CHR ''.'' \<notin> set ''exe'' \<and> (\<exists>c\<in>set ''test''. c \<noteq> CHR ''.'')"
    by simp
  have h2: "(''/opt/'' = [] \<or> last ''/opt/'' = CHR ''/'') \<and> set ''.'' \<subseteq> {CHR ''.''}
      \<and> CHR ''.'' \<notin> set ''hidden'' \<and> CHR ''/'' \<notin> set ''hidden''"
    by simp
  show ?thesis
    using list_tests_fallback_single [where dir = "''/usr/bin/''" and stem = "''test''"
        and ext = "''exe''" and dir' = "''/opt/''" and dots = "''.''" and rest = "''hidden''"]
      h1 h2
    by blast
qed

section \<open>Properties of the hierarchical listing\<close>

text \<open>
  A matching line whose indentation is at most the previous one closes the open branch: its
  joined name is appended to the tests. A deeper line only extends the branch.
\<close>

lemma list_step_closes_branch:
  assumes "test_case_match line = Some (indent_group, test_name)"
      and "length indent_group \<le> prev_indent st"
      and "get_test_name (test_names_branch st) \<noteq> []"
  shows "tests (list_step st line) = tests st @ [get_test_name (test_names_branch st)]"
  using assms by (simp add: list_step_def Let_def)

lemma list_step_deeper_keeps_branch:
  assumes "test_case_match line = Some (indent_group, test_name)"
      and "prev_indent st < length indent_group"
  shows "tests (list_step st line) = tests st"
    and "test_names_branch (list_step st line)
           = test_names_branch st @ [\<lparr>name = test_name, indent = length indent_group\<rparr>]"
  using assms by (simp_all add: list_step_def Let_def)

text \<open>
  C4. For the listing made of the lines \<open>A*\<close>, \<open>  B*\<close>, \<open>  C*\<close>, \<open>D*\<close> the hierarchical
  algorithm yields \<open>A/B\<close>, \<open>A/C\<close>, \<open>D\<close> in that order, with or without a newline after the
  last line. The branch \<open>A/B\<close> is closed by the line of \<open>C\<close>, whose indentation equals
  that of \<open>B\<close>.
\<close>

theorem list_content_nested_example:
  "list_content (''A*'' @ [newline] @ ''  B*'' @ [newline] @ ''  C*'' @ [newline] @ ''D*'')
     = [''A/B'', ''A/C'', ''D'']
   \<and> list_content (''A*'' @ [newline] @ ''  B*'' @ [newline] @ ''  C*'' @ [newline] @ ''D*''
                     @ [newline])
     = [''A/B'', ''A/C'', ''D'']
   \<and> list_content (''  B*'' @ [newline] @ ''  C*'') = [''B'', ''C'']"
  by code_simp

section \<open>Properties of \<^verbatim>\<open>str.split\<close>\<close>

text \<open>
  The number of pieces does not depend on the piece that is being collected, it never
  grows when a prefix of the text is dropped, and every occurrence of the separator adds
  a piece.
\<close>

lemma length_split_from_any:
  "length (split_from sep cur s) = length (split_from sep cur' s)"
proof (induction "length s" arbitrary: s cur cur' rule: less_induct)
  case less
  show ?case
  proof (cases s)
    case Nil
    then show ?thesis by simp
  next
    case (Cons c cs)
    show ?thesis
    proof (cases "sep \<noteq> [] \<and> prefix sep (c # cs)")
      case True
      then show ?thesis using Cons by simp
    next
      case False
      have "length (split_from sep (c # cur) cs) = length (split_from sep (c # cur') cs)"
        by (rule less) (simp add: Cons)
      then show ?thesis using False Cons by auto
    qed
  qed
qed

lemma length_split_from: "length (split_from sep cur s) = nparts sep s"
  unfolding nparts_def by (rule length_split_from_any)

lemma split_from_not_Nil: "split_from sep cur s \<noteq> []"
  by (induction sep cur s rule: split_from.induct) auto

lemma nparts_pos: "1 \<le> nparts sep s"
  using split_from_not_Nil [of sep "[]" s] unfolding nparts_def
  by (cases "split_from sep [] s") simp_all

lemma nparts_Nil: "nparts sep [] = 1"
  by (simp add: nparts_def)

lemma nparts_Cons:
  "nparts sep (c # cs) =
     (if sep \<noteq> [] \<and> prefix sep (c # cs) then 1 + nparts sep (drop (length sep) (c # cs))
      else nparts sep cs)"
  using length_split_from_any [of sep "[c]" cs "[]"] by (auto simp: nparts_def)

lemma nparts_hit:
  "sep \<noteq> [] \<Longrightarrow> prefix sep (c # cs) \<Longrightarrow>
     nparts sep (c # cs) = 1 + nparts sep (drop (length sep) (c # cs))"
  by (simp add: nparts_Cons)

lemma nparts_miss:
  "\<not> (sep \<noteq> [] \<and> prefix sep (c # cs)) \<Longrightarrow> nparts sep (c # cs) = nparts sep cs"
  by (simp only: nparts_Cons if_False)

lemma nparts_drop_aux:
  "length s \<le> m \<Longrightarrow>
     (\<forall>j. nparts sep (drop j s) \<le> nparts sep s) \<and>
     (\<forall>k\<le>length sep. nparts sep s \<le> 1 + nparts sep (drop k s))"
proof (induction m arbitrary: s)
  case 0
  then show ?case by simp
next
  case (Suc m)
  show ?case
  proof (cases s)
    case Nil
    then show ?thesis by simp
  next
    case (Cons c cs)
    then have len: "length cs \<le> m" using Suc.prems by simp
    note IH = Suc.IH [OF len]
    have len': "length (drop i cs) \<le> m" for i using len by simp
    have step: "nparts sep cs \<le> nparts sep s"
    proof (cases "sep \<noteq> [] \<and> prefix sep (c # cs)")
      case True
      then have "length sep - 1 \<le> length sep" by simp
      with IH have "nparts sep cs \<le> 1 + nparts sep (drop (length sep - 1) cs)" by blast
      moreover have "drop (length sep) (c # cs) = drop (length sep - 1) cs"
        using True by (cases sep) auto
      ultimately show ?thesis using True Cons by (simp add: nparts_hit)
    next
      case False
      then have "nparts sep (c # cs) = nparts sep cs" by (rule nparts_miss)
      then show ?thesis using Cons by simp
    qed
    have mono: "nparts sep (drop j s) \<le> nparts sep s" for j
    proof (cases j)
      case 0
      then show ?thesis by simp
    next
      case (Suc j')
      then have "drop j s = drop j' cs" using Cons by simp
      moreover have "nparts sep (drop j' cs) \<le> nparts sep cs" using IH by blast
      ultimately show ?thesis using step by simp
    qed
    have bound: "nparts sep s \<le> 1 + nparts sep (drop k s)" if k: "k \<le> length sep" for k
    proof (cases k)
      case 0
      then show ?thesis by simp
    next
      case (Suc k')
      then have dk: "drop k s = drop k' cs" using Cons by simp
      show ?thesis
      proof (cases "sep \<noteq> [] \<and> prefix sep (c # cs)")
        case True
        have "drop (length sep) s = drop (length sep - k) (drop k s)" using k by simp
        moreover have "nparts sep (drop (length sep - k) (drop k' cs)) \<le> nparts sep (drop k' cs)"
          using Suc.IH [OF len' [of k']] by blast
        ultimately have "nparts sep (drop (length sep) s) \<le> nparts sep (drop k s)"
          using dk by simp
        then show ?thesis using True Cons by (simp add: nparts_hit)
      next
        case False
        have "k' \<le> length sep" using k Suc by simp
        with IH have "nparts sep cs \<le> 1 + nparts sep (drop k' cs)" by blast
        moreover have "nparts sep s = nparts sep cs"
          unfolding Cons using False by (rule nparts_miss)
        ultimately show ?thesis using dk by simp
      qed
    qed
    show ?thesis using mono bound by blast
  qed
qed

lemma nparts_drop: "nparts sep (drop j s) \<le> nparts sep s"
  using nparts_drop_aux [of s "length s" sep] by simp

lemma nparts_occurrence:
  assumes "sep \<noteq> []"
  shows "1 + nparts sep r \<le> nparts sep (a @ sep @ r)"
proof (induction a)
  case Nil
  then show ?case using assms by (cases sep) (simp_all add: nparts_hit)
next
  case (Cons c a)
  show ?case
  proof (cases "prefix sep (c # a @ sep @ r)")
    case True
    have "r = drop (Suc (length a)) (drop (length sep) (c # a @ sep @ r))"
      by (simp add: add.commute)
    then have "nparts sep r \<le> nparts sep (drop (length sep) (c # a @ sep @ r))"
      by (metis nparts_drop)
    then show ?thesis using True assms by (simp add: nparts_hit)
  next
    case False
    then have "\<not> (sep \<noteq> [] \<and> prefix sep (c # a @ sep @ r))" by simp
    then have "nparts sep (c # a @ sep @ r) = nparts sep (a @ sep @ r)"
      by (rule nparts_miss)
    then show ?thesis using Cons by simp
  qed
qed

lemma nparts_two_occurrences:
  assumes "sep \<noteq> []"
  shows "3 \<le> nparts sep (a @ sep @ b @ sep @ c)"
proof -
  have "1 + nparts sep c \<le> nparts sep (b @ sep @ c)" using assms by (rule nparts_occurrence)
  moreover have "1 + nparts sep (b @ sep @ c) \<le> nparts sep (a @ sep @ (b @ sep @ c))"
    using assms by (rule nparts_occurrence)
  moreover have "1 \<le> nparts sep c" by (rule nparts_pos)
  ultimately show ?thesis by simp
qed

lemma split_from_no_occurrence:
  "\<not> (\<exists>a c. s = a @ sep @ c) \<Longrightarrow> split_from sep cur s = [rev cur @ s]"
proof (induction s arbitrary: cur)
  case Nil
  then show ?case by simp
next
  case (Cons x s)
  have np: "\<not> prefix sep (x # s)"
  proof
    assume "prefix sep (x # s)"
    then obtain r where "x # s = sep @ r" by (auto simp: prefix_def)
    then have "x # s = [] @ sep @ r" by simp
    with Cons.prems show False by blast
  qed
  have "\<not> (\<exists>a c. s = a @ sep @ c)"
  proof
    assume "\<exists>a c. s = a @ sep @ c"
    then obtain a c where "s = a @ sep @ c" by blast
    then have "x # s = (x # a) @ sep @ c" by simp
    with Cons.prems show False by blast
  qed
  then have "split_from sep (x # cur) s = [rev (x # cur) @ s]" by (rule Cons.IH)
  then show ?case using np by simp
qed

text \<open>
  Two occurrences of a separator whose first character does not come back inside it cannot
  overlap, so two positions that hold it cut the text into three parts.
\<close>

lemma occurrences_apart:
  assumes "hd sep \<notin> set (tl sep)"
      and "i < j"
      and "prefix sep (drop i s)"
      and "prefix sep (drop j s)"
  shows "i + length sep \<le> j"
proof (rule ccontr)
  assume "\<not> i + length sep \<le> j"
  then have k: "0 < j - i" "j - i < length sep" using assms(2) by simp_all
  then obtain x xs where sep: "sep = x # xs" by (cases sep) auto
  from assms(3) obtain z1 where z1: "drop i s = sep @ z1" by (auto simp: prefix_def)
  from assms(4) obtain z2 where z2: "drop j s = sep @ z2" by (auto simp: prefix_def)
  have "drop j s = drop (j - i) (drop i s)" using assms(2) by simp
  then have "sep @ z2 = drop (j - i) sep @ z1" using z1 z2 k(2) by simp
  then have "hd (drop (j - i) sep @ z1) = x" using sep by (metis append_Cons list.sel(1))
  moreover have "drop (j - i) sep \<noteq> []" using k(2) by simp
  ultimately have "hd (drop (j - i) sep) = x" by simp
  then have "sep ! (j - i) = x" using k(2) by (simp add: hd_drop_conv_nth)
  moreover obtain m where m: "j - i = Suc m" using k(1) by (cases "j - i") auto
  ultimately have "xs ! m = x" using sep by simp
  moreover have "m < length xs" using k(2) m sep by simp
  ultimately have "x \<in> set xs" by (metis nth_mem)
  then show False using assms(1) sep by simp
qed

lemma two_positions_split:
  assumes "hd sep \<notin> set (tl sep)"
      and "i < j"
      and "prefix sep (drop i s)"
      and "prefix sep (drop j s)"
  shows "\<exists>a b c. s = a @ sep @ b @ sep @ c"
proof -
  have far: "i + length sep \<le> j" using assms by (rule occurrences_apart)
  from assms(3) obtain z1 where z1: "drop i s = sep @ z1" by (auto simp: prefix_def)
  from assms(4) obtain z2 where z2: "drop j s = sep @ z2" by (auto simp: prefix_def)
  have "drop j s = drop (j - i) (drop i s)" using assms(2) by simp
  also have "\<dots> = drop (j - i - length sep) z1" using far by (simp add: z1)
  finally have "z1 = take (j - i - length sep) z1 @ sep @ z2"
    using z2 by (metis append_take_drop_id)
  moreover have "s = take i s @ sep @ z1"
    using z1 by (metis append_take_drop_id)
  ultimately have "s = take i s @ sep @ take (j - i - length sep) z1 @ sep @ z2"
    by simp
  then show ?thesis by blast
qed

lemma one_position_split:
  assumes "prefix sep (drop i s)"
  shows "\<exists>a c. s = a @ sep @ c"
proof -
  from assms obtain z where "drop i s = sep @ z" by (auto simp: prefix_def)
  then have "s = take i s @ sep @ z" by (metis append_take_drop_id)
  then show ?thesis by blast
qed

lemma split_fatal_unpack_error:
  assumes "prefix ''<FatalError'' log" "length (split_from ''</FatalError>'' [] log) \<noteq> 2"
  shows "split_fatal et log = Inl ValueError"
proof -
  obtain ps where ps: "split_from ''</FatalError>'' [] log = ps" by simp
  with assms(2) have "length ps \<noteq> 2" by simp
  then have "(case ps of [fatal, log'] \<Rightarrow> f fatal log' | _ \<Rightarrow> Inl ValueError) = Inl ValueError" for f :: "string \<Rightarrow> string \<Rightarrow> exn + element list \<times> string"
    by (auto split: list.splits)
  then show ?thesis using assms(1) ps by (simp add: split_fatal_def)
qed

section \<open>Properties of the native-log parser\<close>

lemma parse_log_None: "parse_log et None = Inl AttributeError"
  by (simp add: parse_log_def)

lemma new_BoostTestFailure_Some:
  "new_BoostTestFailure f l (Some c) = Inr \<lparr>filename = f, linenum = l, lines = splitlines c\<rparr>"
  by (simp add: new_BoostTestFailure_def)

text \<open>
  C10. When the log starts with \<open><FatalError\<close>, the recovery of the fatal-error fragment
  needs exactly one closing tag in the whole text: with \<open></FatalError>\<close> at two
  positions (for instance one more inside the remaining document), which amounts to the text
  being cut in three by two occurrences, the split has more than two pieces; with no
  occurrence it has one piece. In both cases unpacking the pieces into two names raises a
  \<open>ValueError\<close>, whatever the XML reader would do, so no failure record is returned.
\<close>

theorem parse_log_fatal_needs_one_close:
  assumes "prefix ''<FatalError'' log"
  shows "((\<exists>i j. i < j \<and> prefix ''</FatalError>'' (drop i log)
                   \<and> prefix ''</FatalError>'' (drop j log))
            \<longrightarrow> parse_log et (Some log) = Inl ValueError)
       \<and> ((\<exists>a b c. log = a @ ''</FatalError>'' @ b @ ''</FatalError>'' @ c)
            \<longrightarrow> parse_log et (Some log) = Inl ValueError)
       \<and> (\<not> (\<exists>a c. log = a @ ''</FatalError>'' @ c)
            \<longrightarrow> parse_log et (Some log) = Inl ValueError)"
proof -
  have twice: "parse_log et (Some log) = Inl ValueError"
    if "\<exists>a b c. log = a @ ''</FatalError>'' @ b @ ''</FatalError>'' @ c"
  proof -
    from that obtain a b c where "log = a @ ''</FatalError>'' @ b @ ''</FatalError>'' @ c"
      by blast
    then have "3 \<le> nparts ''</FatalError>'' log"
      using nparts_two_occurrences [of "''</FatalError>''" a b c] by simp
    then have "length (split_from ''</FatalError>'' [] log) \<noteq> 2" by (simp add: nparts_def)
    with assms have "split_fatal et log = Inl ValueError" by (rule split_fatal_unpack_error)
    then show ?thesis by (simp add: parse_log_def)
  qed
  have positions: "parse_log et (Some log) = Inl ValueError"
    if "\<exists>i j. i < j \<and> prefix ''</FatalError>'' (drop i log)
                 \<and> prefix ''</FatalError>'' (drop j log)"
  proof -
    from that obtain i j where ij: "i < j" "prefix ''</FatalError>'' (drop i log)"
        "prefix ''</FatalError>'' (drop j log)"
      by blast
    have "\<exists>a b c. log = a @ ''</FatalError>'' @ b @ ''</FatalError>'' @ c"
      by (rule two_positions_split [OF _ ij]) simp
    then show ?thesis by (rule twice)
  qed
  have never: "parse_log et (Some log) = Inl ValueError"
    if "\<not> (\<exists>a c. log = a @ ''</FatalError>'' @ c)"
  proof -
    from that have "split_from ''</FatalError>'' [] log = [rev [] @ log]"
      by (rule split_from_no_occurrence)
    then have "length (split_from ''</FatalError>'' [] log) \<noteq> 2" by simp
    with assms have "split_fatal et log = Inl ValueError" by (rule split_fatal_unpack_error)
    then show ?thesis by (simp add: parse_log_def)
  qed
  show ?thesis using twice positions never by blast
qed

theorem parse_log_fatal_needs_one_close_witness:
  \<open>parse_log fromstring
      (Some ''<FatalError file="f.cpp" line="3">a</FatalError><TestLog><FatalError file="g.cpp" line="4">b</FatalError></TestLog>'')
     = Inl ValueError
   \<and> parse_log fromstring (Some ''<FatalError file="f.cpp" line="3">a'') = Inl ValueError\<close>
proof -
  let ?twice = \<open>''<FatalError file="f.cpp" line="3">a</FatalError><TestLog><FatalError file="g.cpp" line="4">b</FatalError></TestLog>''\<close>
  let ?never = \<open>''<FatalError file="f.cpp" line="3">a''\<close>
  have p1: "prefix ''<FatalError'' ?twice" by simp
  have \<open>?twice = ''<FatalError file="f.cpp" line="3">a'' @ ''</FatalError>''
            @ ''<TestLog><FatalError file="g.cpp" line="4">b'' @ ''</FatalError>'' @ ''</TestLog>''\<close>
    by simp
  then have two: "\<exists>a b c. ?twice = a @ ''</FatalError>'' @ b @ ''</FatalError>'' @ c"
    by blast
  have p2: "prefix ''<FatalError'' ?never" by simp
  have "split_from ''</FatalError>'' [] ?never = [?never]" by code_simp
  then have one: "nparts ''</FatalError>'' ?never = 1" by (simp add: nparts_def)
  have none: "\<not> (\<exists>a c. ?never = a @ ''</FatalError>'' @ c)"
  proof
    assume "\<exists>a c. ?never = a @ ''</FatalError>'' @ c"
    then obtain a c where ac: "?never = a @ ''</FatalError>'' @ c" by blast
    have "1 + nparts ''</FatalError>'' c \<le> nparts ''</FatalError>'' (a @ ''</FatalError>'' @ c)"
      by (rule nparts_occurrence) simp
    then have "1 + nparts ''</FatalError>'' c \<le> 1" using ac one by simp
    moreover have "1 \<le> nparts ''</FatalError>'' c" by (rule nparts_pos)
    ultimately show False by simp
  qed
  have pos: "\<exists>i j. i < j \<and> prefix ''</FatalError>'' (drop i ?twice)
                \<and> prefix ''</FatalError>'' (drop j ?twice)"
  proof -
    have "(35::nat) < 92" by simp
    moreover have "prefix ''</FatalError>'' (drop 35 ?twice)" by code_simp
    moreover have "prefix ''</FatalError>'' (drop 92 ?twice)" by code_simp
    ultimately show ?thesis by blast
  qed
  show ?thesis
    using parse_log_fatal_needs_one_close [OF p1, of fromstring]
          parse_log_fatal_needs_one_close [OF p2, of fromstring] two pos none
    by blast
qed

text \<open>
  C5, as stated: for the log text
  \<open><FatalError>boom</FatalError><TestLog><Exception file="a.cpp" line="5">bad</Exception></TestLog>\<close>
  the parser returns no records. The fatal-error fragment has no \<open>file\<close> attribute, and
  reading it raises a \<open>KeyError\<close>.
\<close>

theorem parse_log_fatal_without_location_raises:
  \<open>parse_log fromstring
     (Some ''<FatalError>boom</FatalError><TestLog><Exception file="a.cpp" line="5">bad</Exception></TestLog>'')
   = Inl KeyError\<close>
  by code_simp

text \<open>
  C5, amended: when the fatal-error fragment carries its own \<open>file\<close> and \<open>line\<close>
  attributes, the parser returns two records in order: the one of the fragment, with the
  message \<open>Fatal Error: boom\<close>, then \<open>("a.cpp", 5, "bad")\<close>.
\<close>

theorem parse_log_fatal_with_location:
  \<open>parse_log fromstring
     (Some ''<FatalError file="f.cpp" line="3">boom</FatalError><TestLog><Exception file="a.cpp" line="5">bad</Exception></TestLog>'')
   = Inr [\<lparr>filename = ''f.cpp'', linenum = 3, lines = [''Fatal Error: boom'']\<rparr>,
          \<lparr>filename = ''a.cpp'', linenum = 5, lines = [''bad'']\<rparr>]\<close>
  by code_simp

section \<open>Properties of the native run path\<close>

text \<open>
  For output made of printable ASCII without quotes and backslashes, \<^verbatim>\<open>repr\<close> is the output
  itself between \<open>b'\<close> and \<open>'\<close>.
\<close>

lemma repr_byte_plain:
  assumes "32 \<le> (of_char c :: nat)" and "(of_char c :: nat) < 127"
      and "c \<noteq> quote" and "c \<noteq> CHR 0x5C"
  shows "repr_byte quote c = [c]"
proof -
  have t: "c \<noteq> CHR 0x09"
  proof
    assume "c = CHR 0x09"
    then have "(of_char c :: nat) = 9" by simp
    then show False using assms(1) by simp
  qed
  have n: "c \<noteq> CHR 0x0A"
  proof
    assume "c = CHR 0x0A"
    then have "(of_char c :: nat) = 10" by simp
    then show False using assms(1) by simp
  qed
  have r: "c \<noteq> CHR 0x0D"
  proof
    assume "c = CHR 0x0D"
    then have "(of_char c :: nat) = 13" by simp
    then show False using assms(1) by simp
  qed
  have range: "\<not> ((of_char c :: nat) < 32 \<or> 127 \<le> (of_char c :: nat))"
    using assms(1,2) by simp
  show ?thesis
    unfolding repr_byte_def Let_def
    by (simp only: assms(3,4) t n r range if_False simp_thms)
qed

lemma bytes_repr_plain:
  assumes "list_all (\<lambda>c. 32 \<le> (of_char c :: nat) \<and> (of_char c :: nat) < 127
             \<and> c \<noteq> CHR 0x27 \<and> c \<noteq> CHR 0x22 \<and> c \<noteq> CHR 0x5C) bs"
  shows "bytes_repr bs = ''b'' @ [CHR 0x27] @ bs @ [CHR 0x27]"
proof -
  have "concat (map (repr_byte (CHR 0x27)) bs) = bs" using assms
  proof (induction bs)
    case Nil
    then show ?case by simp
  next
    case (Cons c cs)
    then have "repr_byte (CHR 0x27) c = [c]"
      by (intro repr_byte_plain) simp_all
    moreover have "concat (map (repr_byte (CHR 0x27)) cs) = cs" using Cons by simp
    ultimately show ?case by simp
  qed
  moreover have "CHR 0x27 \<notin> set bs" using assms by (induction bs) auto
  ultimately show ?thesis by (simp add: bytes_repr_def Let_def)
qed




text \<open>
  C2. A run whose child ends with exit code 0 and leaves no log file: the missing file is
  read as \<^verbatim>\<open>None\<close>, but the parser then raises an \<open>AttributeError\<close> instead of returning
  an empty list, and the run raises it too instead of reporting a pass. An empty log text
  is not an empty list either: the XML reader raises a \<open>ParseError\<close>.
\<close>

theorem missing_log_raises:
  "read_file Map.empty (path_join ''/tmp/d'' ''log.xml'') = Inr None
   \<and> parse_log et None = Inl AttributeError
   \<and> parse_log fromstring (Some []) = Inl ParseError
   \<and> run_tests_fallback et
         (\<lambda>args. Inr \<lparr>returncode = 0, stdout = [], stdout_text = Some [], files = Map.empty\<rparr>)
         ''/tmp/d'' ''./exe'' ''exe'' [] = Raised AttributeError"
proof -
  have "parse_log fromstring (Some []) = Inl ParseError" by code_simp
  then show ?thesis
    by (simp add: run_tests_fallback_def Let_def read_file_def parse_log_None)
qed

section \<open>Properties of the JUnit run path\<close>

lemma run_tests_fallback_not_empty:
  "run_tests_fallback et spawn temp_dir executable test_id test_args \<noteq> Returned (Failures [])
   \<and> run_tests_fallback et spawn temp_dir executable test_id test_args \<noteq> Returned (RawResults rs)"
  by (auto simp: run_tests_fallback_def Let_def new_BoostTestFailure_def
           split: sum.splits option.splits)

lemma scan_results_cases:
  "scan_results test_id results = Some out \<Longrightarrow>
     out = Raised TypeError \<or> out = Raised Skipped \<or> out = Returned NoneValue"
  by (induction test_id results rule: scan_results.induct) (auto split: if_splits)

lemma run_tests_with_no_failures:
  "run_tests_with get_failures spawn log_xml executable test_id test_args \<noteq> Returned (Failures fs)
   \<and> run_tests_with get_failures spawn log_xml executable test_id test_args \<noteq> Returned (RawResults [])"
  by (auto simp: run_tests_with_def split: sum.splits option.splits dest: scan_results_cases)

lemma run_tests_no_failures:
  "run_tests et spawn log_xml executable test_id test_args \<noteq> Returned (Failures fs)
   \<and> run_tests et spawn log_xml executable test_id test_args \<noteq> Returned (RawResults [])"
  using run_tests_with_no_failures
  by (auto simp: run_tests_def split: sum.splits option.splits)

lemma run_test_cases:
  "run_test et spawn temp_dir temp_file executable test_id test_args
     = run_tests_fallback et spawn temp_dir executable test_id test_args
   \<or> run_test et spawn temp_dir temp_file executable test_id test_args
     = run_tests et spawn temp_file executable test_id test_args
   \<or> (\<exists>e. run_test et spawn temp_dir temp_file executable test_id test_args = Raised e)"
  by (auto simp: run_test_def Let_def split: sum.splits)

lemma run_tests_with_mismatch:
  assumes "spawn (junit_args log_xml executable test_args) = Inr p"
      and "get_failures (files p) log_xml = Inr results"
      and "results \<noteq> []"
      and "test_id \<notin> fst ` set results"
  shows "run_tests_with get_failures spawn log_xml executable test_id test_args
           = Returned (RawResults results)"
proof -
  have "test_id \<notin> fst ` set rs \<Longrightarrow> scan_results test_id rs = None" for rs
    by (induction test_id rs rule: scan_results.induct) auto
  with assms show ?thesis by (simp add: run_tests_with_def)
qed

lemma junit_skip_with_parse:
  \<open>run_tests_with (parse fromstring)
        (\<lambda>args. Inr \<lparr>returncode = 0, stdout = [], stdout_text = Some [], files =
           [''/tmp/log.xml'' \<mapsto> Text ''<testsuites><testsuite name="S"><testcase name="t1" status="run"/><testcase name="t2" status="notrun"/></testsuite></testsuites>'']\<rparr>)
        ''/tmp/log.xml'' ''./exe'' ''S.t2'' []
     = Raised Skipped\<close>
  by code_simp

lemma parse_missing_status_example:
  \<open>parse fromstring
      [''/tmp/log.xml'' \<mapsto> Text ''<testsuites><testsuite name="S"><testcase name="t1"/><testcase name="t2" status="notrun"/></testsuite></testsuites>'']
      ''/tmp/log.xml''
     = Inl KeyError\<close>
  by code_simp

lemma parse_root_testsuite_example:
  \<open>parse fromstring
      [''/tmp/log.xml'' \<mapsto> Text ''<testsuite name="S"><testcase name="t1" status="run"/><testcase name="t2" status="notrun"/></testsuite>'']
      ''/tmp/log.xml''
     = Inr []\<close>
  by code_simp

text \<open>
  C6. For a JUnit document with the suite \<open>S\<close>, the test case \<open>t1\<close> without children and
  the test case \<open>t2\<close> with \<open>status="notrun"\<close>, the reader yields \<open>("S.t1", [], False)\<close> and
  \<open>("S.t2", [], True)\<close> in document order. The run against \<open>S.t2\<close> does not reach the skip:
  \<^verbatim>\<open>_run_tests\<close> looks the reader up under the name \<^verbatim>\<open>get_failures\<close>, which the module
  \<^verbatim>\<open>junit_xml\<close> does not define, and raises an \<open>AttributeError\<close>.
\<close>

theorem junit_skip_unreachable:
  \<open>parse fromstring
      [''/tmp/log.xml'' \<mapsto> Text ''<testsuites><testsuite name="S"><testcase name="t1" status="run"/><testcase name="t2" status="notrun"/></testsuite></testsuites>'']
      ''/tmp/log.xml''
     = Inr [(''S.t1'', [], False), (''S.t2'', [], True)]
   \<and> junit_xml_getattr fromstring ''get_failures'' = None
   \<and> run_tests fromstring
        (\<lambda>args. Inr \<lparr>returncode = 0, stdout = [], stdout_text = Some [], files =
           [''/tmp/log.xml'' \<mapsto> Text ''<testsuites><testsuite name="S"><testcase name="t1" status="run"/><testcase name="t2" status="notrun"/></testsuite></testsuites>'']\<rparr>)
        ''/tmp/log.xml'' ''./exe'' ''S.t2'' []
     = Raised AttributeError\<close>
proof -
  have a: \<open>fromstring ''<testsuites><testsuite name="S"><testcase name="t1" status="run"/><testcase name="t2" status="notrun"/></testsuite></testsuites>''
    = Inr (Element ''testsuites'' [] None
        [Element ''testsuite'' [(''name'', ''S'')] None
          [Element ''testcase'' [(''name'', ''t1''), (''status'', ''run'')] None [],
           Element ''testcase'' [(''name'', ''t2''), (''status'', ''notrun'')] None []]])\<close>
    by code_simp
  have b: "junit_xml_getattr fromstring ''get_failures'' = None"
    by (simp add: junit_xml_getattr_def)
  show ?thesis
    by (simp add: parse_def a findall_def attrib_get_def b run_tests_def)
qed

text \<open>
  C7. A JUnit run against a test id that no parsed tuple carries: as the code stands the run
  raises an \<open>AttributeError\<close> (the reader is looked up under a name that does not
  exist); with \<^verbatim>\<open>junit_xml.parse\<close> as the reader the run hands back the parsed tuples as
  they are, not failure records.
\<close>

theorem junit_mismatch_returns_raw:
  \<open>run_tests fromstring
        (\<lambda>args. Inr \<lparr>returncode = 0, stdout = [], stdout_text = Some [], files =
           [''/tmp/log.xml'' \<mapsto> Text ''<testsuites><testsuite name="S"><testcase name="t1" status="run"/></testsuite></testsuites>'']\<rparr>)
        ''/tmp/log.xml'' ''./exe'' ''S.other'' []
     = Raised AttributeError
   \<and> run_tests_with (parse fromstring)
        (\<lambda>args. Inr \<lparr>returncode = 0, stdout = [], stdout_text = Some [], files =
           [''/tmp/log.xml'' \<mapsto> Text ''<testsuites><testsuite name="S"><testcase name="t1" status="run"/></testsuite></testsuites>'']\<rparr>)
        ''/tmp/log.xml'' ''./exe'' ''S.other'' []
     = Returned (RawResults [(''S.t1'', [], False)])\<close>
  by code_simp

section \<open>Properties of the probe\<close>

lemma probe_nonzero_exit_recovered:
  assumes "spawn [executable, ''--help''] = Inr p" "stdout_text p = Some output"
      and "returncode p \<noteq> 0"
  shows "create_facade spawn executable
           = Inr \<lparr>list_test_fn = ListFallback, run_test_fn = RunFallback\<rparr>"
    and "run_test et spawn temp_dir temp_file executable test_id test_args
           = run_tests_fallback et spawn temp_dir executable test_id test_args"
    and "is_test_suite spawn executable = Inr False"
  using assms
  by (simp_all add: create_facade_def run_test_def is_test_suite_def check_output_def Let_def)

text \<open>
  C8. An executable that cannot be started: the probe of \<^verbatim>\<open>is_test_suite\<close> recovers from
  the \<open>OSError\<close>, but \<^verbatim>\<open>create_facade\<close> and \<^verbatim>\<open>run_test\<close> catch only
  \<^verbatim>\<open>CalledProcessError\<close> and let it through to the caller.
\<close>

theorem probe_spawn_failure_propagates:
  "create_facade (\<lambda>args. Inl OSError) executable = Inl OSError
   \<and> run_test et (\<lambda>args. Inl OSError) temp_dir temp_file executable test_id test_args
       = Raised OSError
   \<and> is_test_suite (\<lambda>args. Inl OSError) executable = Inr False"
  by (simp add: create_facade_def run_test_def is_test_suite_def check_output_def Let_def)

section \<open>The shape of the outcome\<close>

text \<open>
  C9. On every path a run never returns an empty list: neither an empty list of failure
  records nor an empty list of parsed tuples. When the native-log parser finds no failure
  (after an accepted exit code and without an error report), and when the JUnit reader
  finds no result, the run returns \<^verbatim>\<open>None\<close>, which is the passed outcome.
\<close>

theorem failed_outcome_never_empty:
  "run_test et spawn temp_dir temp_file executable test_id test_args \<noteq> Returned (Failures [])
   \<and> run_test et spawn temp_dir temp_file executable test_id test_args \<noteq> Returned (RawResults [])
   \<and> run_tests_fallback et spawn temp_dir executable test_id test_args \<noteq> Returned (Failures [])
   \<and> run_tests et spawn temp_file executable test_id test_args \<noteq> Returned (Failures [])
   \<and> run_tests et spawn temp_file executable test_id test_args \<noteq> Returned (RawResults [])
   \<and> (spawn (fallback_args temp_dir executable test_args) = Inr p
        \<and> returncode p \<in> {0, 200, 201}
        \<and> files p (path_join temp_dir ''report.xml'') = map_option Text report
        \<and> (case report of
               None \<Rightarrow> True
             | Some r \<Rightarrow> \<not> prefix ''Boost.Test framework internal error: '' r
                          \<and> \<not> prefix ''Test setup error: '' r)
        \<and> files p (path_join temp_dir ''log.xml'') = map_option Text log
        \<and> parse_log et log = Inr []
        \<longrightarrow> run_tests_fallback et spawn temp_dir executable test_id test_args
              = Returned NoneValue)
   \<and> (spawn (junit_args temp_file executable test_args) = Inr q
        \<and> get_failures (files q) temp_file = Inr []
        \<longrightarrow> run_tests_with get_failures spawn temp_file executable test_id test_args
              = Returned NoneValue)"
proof -
  have a: "run_tests_fallback et spawn temp_dir executable test_id test_args \<noteq> Returned (Failures [])"
    using run_tests_fallback_not_empty by blast
  have b: "run_tests_fallback et spawn temp_dir executable test_id test_args \<noteq> Returned (RawResults [])"
    using run_tests_fallback_not_empty by blast
  have c: "run_tests et spawn temp_file executable test_id test_args \<noteq> Returned (Failures [])"
    using run_tests_no_failures by blast
  have d: "run_tests et spawn temp_file executable test_id test_args \<noteq> Returned (RawResults [])"
    using run_tests_no_failures by blast
  have e: "run_test et spawn temp_dir temp_file executable test_id test_args \<noteq> Returned (Failures [])"
    using run_test_cases [of et spawn temp_dir temp_file executable test_id test_args] a c
    by auto
  have f: "run_test et spawn temp_dir temp_file executable test_id test_args \<noteq> Returned (RawResults [])"
    using run_test_cases [of et spawn temp_dir temp_file executable test_id test_args] b d
    by auto
  have g: "spawn (fallback_args temp_dir executable test_args) = Inr p
        \<and> returncode p \<in> {0, 200, 201}
        \<and> files p (path_join temp_dir ''report.xml'') = map_option Text report
        \<and> (case report of
               None \<Rightarrow> True
             | Some r \<Rightarrow> \<not> prefix ''Boost.Test framework internal error: '' r
                          \<and> \<not> prefix ''Test setup error: '' r)
        \<and> files p (path_join temp_dir ''log.xml'') = map_option Text log
        \<and> parse_log et log = Inr []
        \<longrightarrow> run_tests_fallback et spawn temp_dir executable test_id test_args
              = Returned NoneValue"
  proof -
    have rd: "read_file fs nm = Inr v" if "fs nm = map_option Text v" for fs nm v
      using that by (cases v) (simp_all add: read_file_def)
    show ?thesis
      by (auto simp: run_tests_fallback_def Let_def rd split: option.splits)
  qed
  have h: "spawn (junit_args temp_file executable test_args) = Inr q
        \<and> get_failures (files q) temp_file = Inr []
        \<longrightarrow> run_tests_with get_failures spawn temp_file executable test_id test_args
              = Returned NoneValue"
    by (auto simp: run_tests_with_def)
  show ?thesis using a c d e f g h by blast
qed

theorem failed_outcome_never_empty_witness:
  \<open>run_tests_fallback fromstring
       (\<lambda>args. Inr \<lparr>returncode = 0, stdout = [], stdout_text = Some [],
                      files = [''/tmp/d/log.xml'' \<mapsto> Text ''<TestLog/>'']\<rparr>)
       ''/tmp/d'' ''./exe'' ''exe'' [] = Returned NoneValue
   \<and> run_tests_with (parse fromstring)
       (\<lambda>args. Inr \<lparr>returncode = 0, stdout = [], stdout_text = Some [],
                      files = [''/tmp/log.xml'' \<mapsto> Text ''<testsuites/>'']\<rparr>)
       ''/tmp/log.xml'' ''./exe'' ''S.t'' [] = Returned NoneValue\<close>
proof -
  let ?p = "\<lparr>returncode = 0, stdout = [], stdout_text = Some [],
             files = [''/tmp/d/log.xml'' \<mapsto> Text ''<TestLog/>'']\<rparr>"
  let ?q = "\<lparr>returncode = 0, stdout = [], stdout_text = Some [],
             files = [''/tmp/log.xml'' \<mapsto> Text ''<testsuites/>'']\<rparr>"
  let ?sp = "\<lambda>args :: string list. (Inr ?p :: exn + child)"
  let ?sq = "\<lambda>args :: string list. (Inr ?q :: exn + child)"
  have logp: "path_join ''/tmp/d'' ''log.xml'' = ''/tmp/d/log.xml''"
    and repp: "path_join ''/tmp/d'' ''report.xml'' = ''/tmp/d/report.xml''"
    by code_simp+
  have p1: "?sp (fallback_args ''/tmp/d'' ''./exe'' []) = Inr ?p" by simp
  have p2: "returncode ?p \<in> {0, 200, 201}" by simp
  have p3: "files ?p (path_join ''/tmp/d'' ''report.xml'') = map_option Text None"
    unfolding repp by simp
  have p4: "(case (None :: string option) of
               None \<Rightarrow> True
             | Some r \<Rightarrow> \<not> prefix ''Boost.Test framework internal error: '' r
                          \<and> \<not> prefix ''Test setup error: '' r)"
    by simp
  have p5: "files ?p (path_join ''/tmp/d'' ''log.xml'') = map_option Text (Some ''<TestLog/>'')"
    unfolding logp by simp
  have p6: "parse_log fromstring (Some ''<TestLog/>'') = Inr []" by code_simp
  have q1: "?sq (junit_args ''/tmp/log.xml'' ''./exe'' []) = Inr ?q" by simp
  have q2: "parse fromstring (files ?q) ''/tmp/log.xml'' = Inr []" by code_simp
  have fallback: "run_tests_fallback fromstring ?sp ''/tmp/d'' ''./exe'' ''exe'' [] = Returned NoneValue"
    using failed_outcome_never_empty [where et = fromstring and spawn = ?sp
        and temp_dir = "''/tmp/d''" and executable = "''./exe''" and test_id = "''exe''"
        and test_args = "[]" and p = ?p and report = None and log = "Some ''<TestLog/>''"]
      p1 p2 p3 p4 p5 p6
    by blast
  have junit: "run_tests_with (parse fromstring) ?sq ''/tmp/log.xml'' ''./exe'' ''S.t'' []
                 = Returned NoneValue"
    using failed_outcome_never_empty [where spawn = ?sq and temp_file = "''/tmp/log.xml''"
        and executable = "''./exe''" and test_id = "''S.t''" and test_args = "[]" and q = ?q
        and get_failures = "parse fromstring"] q1 q2
    by blast
  show ?thesis using fallback junit by blast
qed

end
